theory Spec2Isabelle
  imports Complex_Main "HOL-Library.Multiset"
begin

section \<open>The tracker database\<close>

text \<open>
  The three tables that \<open>initDatabase\<close> creates in \<open>tracker.db\<close> (App.js, lines 61-89).
  Columns keep their names; \<open>id\<close>, and the columns that \<open>locations\<close> shares with the fix
  it is filled from, carry a prefix. The \<open>created_at\<close> columns default to the wall clock and
  are read by no statement of the program other than \<open>SELECT *\<close> for display; they are left out.
  A value that may be NULL (or, on the JavaScript side, null or undefined) is an option.
  A coordinate is a JavaScript number: a finite value, NaN or one of the two infinities.
  A REAL column holds any of them but NaN.
\<close>

datatype number = Num real | NaN | Infinity | NegInfinity

record locations_row =
  row_id :: nat
  row_latitude :: number
  row_longitude :: number
  row_accuracy :: "number option"
  row_altitude :: "number option"
  row_speed :: "number option"
  row_heading :: "number option"
  row_timestamp :: int
  synced :: nat

record sync_queue_row =
  queue_id :: nat
  table_name :: string
  record_id :: nat
  operation :: string

text \<open>
  The \<open>message\<close> column is TEXT. The model keeps the template of each message apart from
  its arguments, because \<open>toFixed(6)\<close> renders a floating-point number (NaN as "NaN", an
  infinity as "Infinity").
\<close>

datatype log_message =
    DatabaseInitialized
  | TrackingStarted
  | TrackingStopped
  | LocationSaved number number
  | FailedToSaveLocation string
  | NoDataToSync
  | Synced nat
  | SyncFailed string
  | DatabaseCleared

record app_logs_row =
  log_id :: nat
  message :: log_message
  level :: string

text \<open>
  The database file: the rows of each table in insertion (rowid) order, and for each
  AUTOINCREMENT key the largest rowid ever used (the table \<open>sqlite_sequence\<close>), which
  DELETE does not reset.
\<close>

record tracker_db =
  locations :: "locations_row list"
  sync_queue :: "sync_queue_row list"
  app_logs :: "app_logs_row list"
  seq_locations :: nat
  seq_sync_queue :: nat
  seq_app_logs :: nat

definition empty_db :: tracker_db where
  "empty_db = \<lparr>locations = [], sync_queue = [], app_logs = [],
     seq_locations = 0, seq_sync_queue = 0, seq_app_logs = 0\<rparr>"

text \<open>
  INTEGER PRIMARY KEY AUTOINCREMENT: the new rowid is one more than the largest rowid
  that ever existed in the table.
\<close>

definition autoincrement :: "nat \<Rightarrow> nat list \<Rightarrow> nat" where
  "autoincrement seq ids = Suc (fold max ids seq)"

section \<open>Asynchronous functions\<close>

text \<open>
  An \<open>async\<close> function runs against the database and either resolves with a value or
  rejects with an error; the database keeps the effects of the statements that ran.
  \<open>await\<close> is the sequencing of \<open>await e; rest\<close>, \<open>try_catch\<close> the \<open>try { } catch (error) { }\<close>
  block.
\<close>

datatype error = NotNullConstraint string | TypeError string

fun error_message :: "error \<Rightarrow> string" where
  "error_message (NotNullConstraint c) = ''NOT NULL constraint failed: '' @ c"
| "error_message (TypeError m) = m"

type_synonym 'a async = "tracker_db \<Rightarrow> (error + 'a) \<times> tracker_db"

definition resolve :: "'a \<Rightarrow> 'a async" where
  "resolve x s = (Inr x, s)"

definition reject :: "error \<Rightarrow> 'a async" where
  "reject e s = (Inl e, s)"

definition await :: "'a async \<Rightarrow> ('a \<Rightarrow> 'b async) \<Rightarrow> 'b async" where
  "await m f s = (case m s of (Inl e, s') \<Rightarrow> (Inl e, s') | (Inr x, s') \<Rightarrow> f x s')"

definition try_catch :: "'a async \<Rightarrow> (error \<Rightarrow> 'a async) \<Rightarrow> 'a async" where
  "try_catch m h s = (case m s of (Inl e, s') \<Rightarrow> h e s' | (Inr x, s') \<Rightarrow> (Inr x, s'))"

section \<open>The component's state\<close>

text \<open>
  \<open>database\<close> and \<open>isOnline\<close> are \<open>useState\<close> variables of the component \<open>App\<close>. A function
  of the component reads the values of the render that created it, so each function below
  takes them as its first argument. \<open>initial_app\<close> is the first render:
  \<open>useState(null)\<close> and \<open>useState(true)\<close>.
\<close>

datatype handle = TrackerDb

record app =
  database :: "handle option"
  isOnline :: bool

definition initial_app :: app where
  "initial_app = \<lparr>database = None, isOnline = True\<rparr>"

text \<open>A fix as the location source delivers it: \<open>location.coords.*\<close> and \<open>location.timestamp\<close>.\<close>

record location =
  latitude :: "number option"
  longitude :: "number option"
  accuracy :: "number option"
  altitude :: "number option"
  speed :: "number option"
  heading :: "number option"
  timestamp :: "int option"

section \<open>The SQL statements\<close>

text \<open>
  A number bound to a parameter of a statement: SQLite binds NaN as NULL, and the
  infinities as they are.
\<close>

definition bind_double :: "number option \<Rightarrow> number option" where
  "bind_double v = (case v of Some NaN \<Rightarrow> None | _ \<Rightarrow> v)"

text \<open>
  \<open>INSERT INTO locations (latitude, ..., timestamp, synced) VALUES (?, ..., ?)\<close> with the
  fix's fields and 0 (App.js, lines 319-333). \<open>latitude\<close>, \<open>longitude\<close> and \<open>timestamp\<close> are
  NOT NULL; the statement resolves with \<open>lastInsertRowId\<close>.
\<close>

definition insert_locations :: "location \<Rightarrow> nat async" where
  "insert_locations loc s =
     (case bind_double (latitude loc) of
        None \<Rightarrow> (Inl (NotNullConstraint ''locations.latitude''), s)
      | Some la \<Rightarrow>
     (case bind_double (longitude loc) of
        None \<Rightarrow> (Inl (NotNullConstraint ''locations.longitude''), s)
      | Some lo \<Rightarrow>
     (case timestamp loc of
        None \<Rightarrow> (Inl (NotNullConstraint ''locations.timestamp''), s)
      | Some t \<Rightarrow>
          (let i = autoincrement (seq_locations s) (map row_id (locations s)) in
           (Inr i,
            s\<lparr>locations := locations s @
                 [\<lparr>row_id = i, row_latitude = la, row_longitude = lo,
                   row_accuracy = bind_double (accuracy loc),
                   row_altitude = bind_double (altitude loc),
                   row_speed = bind_double (speed loc),
                   row_heading = bind_double (heading loc),
                   row_timestamp = t, synced = 0\<rparr>],
               seq_locations := i\<rparr>)))))"

text \<open>\<open>INSERT INTO sync_queue (table_name, record_id, operation) VALUES (?, ?, ?)\<close>.\<close>

definition insert_sync_queue :: "string \<Rightarrow> nat \<Rightarrow> string \<Rightarrow> unit async" where
  "insert_sync_queue tn rid opn s =
     (let i = autoincrement (seq_sync_queue s) (map queue_id (sync_queue s)) in
      (Inr (),
       s\<lparr>sync_queue := sync_queue s @
            [\<lparr>queue_id = i, table_name = tn, record_id = rid, operation = opn\<rparr>],
          seq_sync_queue := i\<rparr>))"

text \<open>\<open>INSERT INTO app_logs (message, level) VALUES (?, ?)\<close>.\<close>

definition insert_app_logs :: "log_message \<Rightarrow> string \<Rightarrow> unit async" where
  "insert_app_logs msg lvl s =
     (let i = autoincrement (seq_app_logs s) (map log_id (app_logs s)) in
      (Inr (),
       s\<lparr>app_logs := app_logs s @ [\<lparr>log_id = i, message = msg, level = lvl\<rparr>],
          seq_app_logs := i\<rparr>))"

section \<open>Logging and initialisation\<close>

text \<open>\<open>logToDatabase\<close> (App.js, lines 187-199).\<close>

definition logToDatabase :: "app \<Rightarrow> log_message \<Rightarrow> string \<Rightarrow> unit async" where
  "logToDatabase a msg lvl =
     (if database a = None then resolve ()
      else try_catch (insert_app_logs msg lvl) (\<lambda>e. resolve ()))"

text \<open>
  \<open>initDatabase\<close> (App.js, lines 55-96). \<open>CREATE TABLE IF NOT EXISTS\<close> leaves existing tables
  as they are. \<open>setDatabase(db)\<close> comes first, so the function resolves with that handle
  also when a later statement fails and the \<open>catch\<close> block runs. The \<open>logToDatabase\<close> it
  calls is the one of the render that created \<open>initDatabase\<close>.
\<close>

definition create_tables :: "unit async" where
  "create_tables s = (Inr (), s)"

definition initDatabase :: "app \<Rightarrow> handle async" where
  "initDatabase a =
     try_catch
       (await create_tables (\<lambda>_.
        await (logToDatabase a DatabaseInitialized ''info'') (\<lambda>_.
        resolve TrackerDb)))
       (\<lambda>e. resolve TrackerDb)"

section \<open>Capture\<close>

text \<open>
  The message \<open>Location saved: ${latitude.toFixed(6)}, ${longitude.toFixed(6)}\<close>; calling
  \<open>toFixed\<close> on a missing coordinate throws.
\<close>

definition location_saved :: "location \<Rightarrow> log_message async" where
  "location_saved loc =
     (case latitude loc of
        None \<Rightarrow> reject (TypeError ''Cannot read property toFixed of null'')
      | Some la \<Rightarrow>
     (case longitude loc of
        None \<Rightarrow> reject (TypeError ''Cannot read property toFixed of null'')
      | Some lo \<Rightarrow> resolve (LocationSaved la lo)))"

text \<open>\<open>saveLocation\<close> (App.js, lines 315-350).\<close>

definition saveLocation :: "app \<Rightarrow> location \<Rightarrow> unit async" where
  "saveLocation a loc =
     (if database a = None then resolve ()
      else try_catch
        (await (insert_locations loc) (\<lambda>lastInsertRowId.
         await (insert_sync_queue ''locations'' lastInsertRowId ''INSERT'') (\<lambda>_.
         await (location_saved loc) (\<lambda>message.
         logToDatabase a message ''info''))))
        (\<lambda>e. logToDatabase a (FailedToSaveLocation (error_message e)) ''error''))"

text \<open>
  The handler of the background location task (App.js, lines 693-734): it takes the first
  fix of the batch, opens the database itself and inserts the fix into \<open>locations\<close>. It has
  no \<open>try\<close> block and writes neither \<open>sync_queue\<close> nor \<open>app_logs\<close>.
\<close>

definition background_location_task :: "bool \<Rightarrow> location list \<Rightarrow> unit async" where
  "background_location_task err locs =
     (if err then resolve ()
      else (case locs of
              [] \<Rightarrow> resolve ()
            | loc # _ \<Rightarrow> await (insert_locations loc) (\<lambda>_. resolve ())))"

section \<open>Synchronisation\<close>

text \<open>
  \<open>SELECT * FROM locations WHERE synced = 0 ORDER BY timestamp ASC LIMIT 100\<close>
  (App.js, lines 358-360). SQL leaves the order of rows with equal timestamps open; the
  model keeps them in rowid order.
\<close>

definition listPending :: "tracker_db \<Rightarrow> locations_row list" where
  "listPending s =
     take 100 (sort_key row_timestamp (filter (\<lambda>r. synced r = 0) (locations s)))"

definition select_unsynced :: "locations_row list async" where
  "select_unsynced s = (Inr (listPending s), s)"

text \<open>
  \<open>UPDATE locations SET synced = 1 WHERE id IN (${locationIds.join(",")})\<close>
  (App.js, lines 373-375): the ids are written into the statement, so the list after
  \<open>IN\<close> is the list of ids.
\<close>

definition markSynced :: "nat list \<Rightarrow> unit async" where
  "markSynced ids s =
     (Inr (),
      s\<lparr>locations :=
           map (\<lambda>r. if row_id r \<in> set ids then r\<lparr>synced := 1\<rparr> else r) (locations s)\<rparr>)"

text \<open>
  \<open>String(n)\<close> for a row id and \<open>locationIds.join(",")\<close>.
\<close>

definition digit_char :: "nat \<Rightarrow> char" where
  "digit_char d = char_of (48 + d)"

fun string_of_nat :: "nat \<Rightarrow> string" where
  "string_of_nat n =
     (if n < 10 then [digit_char n] else string_of_nat (n div 10) @ [digit_char (n mod 10)])"

declare string_of_nat.simps [simp del]

fun join :: "nat list \<Rightarrow> string" where
  "join [] = []"
| "join [x] = string_of_nat x"
| "join (x # y # ys) = string_of_nat x @ '','' @ join (y # ys)"

text \<open>
  A TEXT value compared with an INTEGER column gets NUMERIC affinity: text that is an
  integer literal becomes that integer, any other text stays text, and an integer never
  equals a text. The texts that reach the comparison are built by \<open>join\<close>, so the literals
  to recognise are the non-empty strings of decimal digits.
\<close>

definition digit_of_char :: "char \<Rightarrow> nat option" where
  "digit_of_char c =
     (let k = (of_char c :: nat) in if 48 \<le> k \<and> k \<le> 57 then Some (k - 48) else None)"

fun parse_digits :: "nat \<Rightarrow> string \<Rightarrow> nat option" where
  "parse_digits acc [] = Some acc"
| "parse_digits acc (c # cs) =
     (case digit_of_char c of None \<Rightarrow> None | Some d \<Rightarrow> parse_digits (10 * acc + d) cs)"

definition numeric_of_text :: "string \<Rightarrow> nat option" where
  "numeric_of_text txt = (if txt = [] then None else parse_digits 0 txt)"

definition integer_eq_text :: "nat \<Rightarrow> string \<Rightarrow> bool" where
  "integer_eq_text n txt = (case numeric_of_text txt of None \<Rightarrow> False | Some m \<Rightarrow> n = m)"

text \<open>
  \<open>DELETE FROM sync_queue WHERE table_name = ? AND record_id IN (?)\<close> with the parameters
  \<open>["locations", locationIds.join(",")]\<close> (App.js, lines 378-381): the list after \<open>IN\<close>
  has one element, the bound text.
\<close>

definition delete_sync_queue :: "string \<Rightarrow> string \<Rightarrow> unit async" where
  "delete_sync_queue tn txt s =
     (Inr (),
      s\<lparr>sync_queue :=
           filter (\<lambda>q. \<not> (table_name q = tn \<and> integer_eq_text (record_id q) txt))
             (sync_queue s)\<rparr>)"

text \<open>
  \<open>syncData\<close> (App.js, lines 353-395). The remote call is not written ("simulate
  successful sync"). The final \<open>loadLocations\<close> and \<open>loadStats\<close> only refresh what the
  component displays.
\<close>

definition syncData :: "app \<Rightarrow> unit async" where
  "syncData a =
     (if database a = None \<or> \<not> isOnline a then resolve ()
      else try_catch
        (await select_unsynced (\<lambda>unsyncedLocations.
         if length unsyncedLocations = 0 then logToDatabase a NoDataToSync ''info''
         else
           (let locationIds = map row_id unsyncedLocations in
            await (markSynced locationIds) (\<lambda>_.
            await (delete_sync_queue ''locations'' (join locationIds)) (\<lambda>_.
            logToDatabase a (Synced (length unsyncedLocations)) ''info'')))))
        (\<lambda>e. logToDatabase a (SyncFailed (error_message e)) ''error''))"

text \<open>
  The handler of the background sync task (App.js, lines 737-749): it asks whether the
  network is connected, opens the database and reports; it does not call \<open>syncData\<close> and
  runs no statement.
\<close>

datatype background_fetch_result = NewData | NoData

definition background_sync_task :: "bool \<Rightarrow> background_fetch_result async" where
  "background_sync_task isConnected =
     (if isConnected then resolve NewData else resolve NoData)"

section \<open>Statistics and purge\<close>

text \<open>
  \<open>loadStats\<close> (App.js, lines 114-132): \<open>COUNT(*)\<close> and two \<open>SUM(CASE ...)\<close> over
  \<open>locations\<close>; \<open>SUM\<close> over no rows is NULL. The result is the value given to \<open>setStats\<close>,
  \<open>None\<close> when \<open>setStats\<close> is not called. The fields \<open>n_synced\<close> and \<open>n_pending\<close> are the
  columns \<open>synced\<close> and \<open>pending\<close>.
\<close>

record stats =
  total :: nat
  n_synced :: "nat option"
  n_pending :: "nat option"

definition sql_sum :: "nat list \<Rightarrow> nat option" where
  "sql_sum xs = (if xs = [] then None else Some (sum_list xs))"

definition loadStats :: "app \<Rightarrow> tracker_db \<Rightarrow> stats option" where
  "loadStats a s =
     (if database a = None then None
      else Some \<lparr>total = length (locations s),
                 n_synced = sql_sum (map (\<lambda>r. if synced r = 1 then 1 else 0) (locations s)),
                 n_pending = sql_sum (map (\<lambda>r. if synced r = 0 then 1 else 0) (locations s))\<rparr>)"

text \<open>
  \<open>clearDatabase\<close> (App.js, lines 398-429): the alert offers Cancel and Clear; the
  deletion runs in the handler of Clear.
\<close>

datatype alert_button = Cancel | Clear

definition delete_all :: "unit async" where
  "delete_all s = (Inr (), s\<lparr>locations := [], sync_queue := [], app_logs := []\<rparr>)"

definition clearDatabase :: "app \<Rightarrow> alert_button \<Rightarrow> unit async" where
  "clearDatabase a button =
     (if database a = None then resolve ()
      else (case button of
              Cancel \<Rightarrow> resolve ()
            | Clear \<Rightarrow>
                try_catch
                  (await delete_all (\<lambda>_. logToDatabase a DatabaseCleared ''info''))
                  (\<lambda>e. resolve ())))"

section \<open>Interleaved synchronisation\<close>

text \<open>
  \<open>syncData\<close> gives up control at each \<open>await\<close>, and the handlers of other triggers run
  in between. A call in progress is at one of these points: just triggered; after the
  SELECT, holding \<open>unsyncedLocations\<close>; after the UPDATE; after the DELETE; finished.
  \<open>sync_step\<close> runs a call up to its next \<open>await\<close>.
\<close>

datatype sync_task =
    Triggered
  | Selected "locations_row list"
  | Marked "locations_row list"
  | Dequeued "locations_row list"
  | Finished

definition sync_failed :: "app \<Rightarrow> error \<Rightarrow> tracker_db \<Rightarrow> sync_task \<times> tracker_db" where
  "sync_failed a e s = (Finished, snd (logToDatabase a (SyncFailed (error_message e)) ''error'' s))"

fun sync_step :: "app \<Rightarrow> sync_task \<Rightarrow> tracker_db \<Rightarrow> sync_task \<times> tracker_db" where
  "sync_step a Triggered s =
     (if database a = None \<or> \<not> isOnline a then (Finished, s)
      else (case select_unsynced s of
              (Inl e, s') \<Rightarrow> sync_failed a e s'
            | (Inr unsyncedLocations, s') \<Rightarrow> (Selected unsyncedLocations, s')))"
| "sync_step a (Selected unsyncedLocations) s =
     (if length unsyncedLocations = 0
      then (case logToDatabase a NoDataToSync ''info'' s of
              (Inl e, s') \<Rightarrow> sync_failed a e s'
            | (Inr _, s') \<Rightarrow> (Finished, s'))
      else (case markSynced (map row_id unsyncedLocations) s of
              (Inl e, s') \<Rightarrow> sync_failed a e s'
            | (Inr _, s') \<Rightarrow> (Marked unsyncedLocations, s')))"
| "sync_step a (Marked unsyncedLocations) s =
     (case delete_sync_queue ''locations'' (join (map row_id unsyncedLocations)) s of
        (Inl e, s') \<Rightarrow> sync_failed a e s'
      | (Inr _, s') \<Rightarrow> (Dequeued unsyncedLocations, s'))"
| "sync_step a (Dequeued unsyncedLocations) s =
     (case logToDatabase a (Synced (length unsyncedLocations)) ''info'' s of
        (Inl e, s') \<Rightarrow> sync_failed a e s'
      | (Inr _, s') \<Rightarrow> (Finished, s'))"
| "sync_step a Finished s = (Finished, s)"

text \<open>
  The calls in progress, each with the render state its \<open>syncData\<close> was created in, and
  the database. A schedule names, step by step, the call that runs next.
\<close>

type_synonym sync_config = "(app \<times> sync_task) list \<times> tracker_db"

definition sched_step :: "nat \<Rightarrow> sync_config \<Rightarrow> sync_config" where
  "sched_step i c =
     (case c of (ts, s) \<Rightarrow>
        if i < length ts
        then (case ts ! i of (a, t) \<Rightarrow>
                (case sync_step a t s of (t', s') \<Rightarrow> (ts[i := (a, t')], s')))
        else (ts, s))"

definition run_schedule :: "nat list \<Rightarrow> sync_config \<Rightarrow> sync_config" where
  "run_schedule sched c = fold sched_step sched c"

definition passes_guard :: "app \<Rightarrow> bool" where
  "passes_guard a = (database a \<noteq> None \<and> isOnline a)"

text \<open>The calls that got past the guard and have run to their end.\<close>

definition episodes_finished :: "(app \<times> sync_task) list \<Rightarrow> nat" where
  "episodes_finished ts = length (filter (\<lambda>(a, t). passes_guard a \<and> t = Finished) ts)"

text \<open>
  The audit entries an episode writes when it ends: "No data to sync", or "Synced k
  locations" for a batch of k rows, at level info.
\<close>

definition sync_entry :: "app_logs_row \<Rightarrow> bool" where
  "sync_entry l =
     (level l = ''info'' \<and>
      (case message l of NoDataToSync \<Rightarrow> True | Synced k \<Rightarrow> 0 < k | _ \<Rightarrow> False))"

text \<open>Every row of \<open>locations\<close> whose id is in the batch is synced.\<close>

definition batch_marked :: "tracker_db \<Rightarrow> locations_row list \<Rightarrow> bool" where
  "batch_marked s rows =
     list_all (\<lambda>r. row_id r \<in> row_id ` set rows \<longrightarrow> synced r = 1) (locations s)"

text \<open>
  What holds of a call in progress: it got past the guard, and once it is past the UPDATE
  its batch is not empty and is marked.
\<close>

definition task_ok :: "tracker_db \<Rightarrow> app \<times> sync_task \<Rightarrow> bool" where
  "task_ok s x =
     (case snd x of
        Triggered \<Rightarrow> True
      | Selected rows \<Rightarrow> passes_guard (fst x)
      | Marked rows \<Rightarrow> passes_guard (fst x) \<and> rows \<noteq> [] \<and> batch_marked s rows
      | Dequeued rows \<Rightarrow> passes_guard (fst x) \<and> rows \<noteq> [] \<and> batch_marked s rows
      | Finished \<Rightarrow> True)"

section \<open>Sequences of operations\<close>

datatype engine_op =
    SaveLocation app location
  | LocationTask bool "location list"
  | SyncData app
  | LogToDatabase app log_message string
  | InitDatabase app
  | ClearDatabase app alert_button

fun apply_op :: "engine_op \<Rightarrow> tracker_db \<Rightarrow> tracker_db" where
  "apply_op (SaveLocation a loc) s = snd (saveLocation a loc s)"
| "apply_op (LocationTask err locs) s = snd (background_location_task err locs s)"
| "apply_op (SyncData a) s = snd (syncData a s)"
| "apply_op (LogToDatabase a msg lvl) s = snd (logToDatabase a msg lvl s)"
| "apply_op (InitDatabase a) s = snd (initDatabase a s)"
| "apply_op (ClearDatabase a button) s = snd (clearDatabase a button s)"

definition run :: "engine_op list \<Rightarrow> tracker_db \<Rightarrow> tracker_db" where
  "run ops s = fold apply_op ops s"

fun is_purge :: "engine_op \<Rightarrow> bool" where
  "is_purge (ClearDatabase a button) = True"
| "is_purge _ = False"

fun is_location_task :: "engine_op \<Rightarrow> bool" where
  "is_location_task (LocationTask err locs) = True"
| "is_location_task _ = False"

text \<open>
  The pairing of pending samples and queue entries: the entries of \<open>sync_queue\<close> that
  refer to a row of \<open>locations\<close>, and the property that each pending row has exactly one.
\<close>

definition entries_for :: "tracker_db \<Rightarrow> nat \<Rightarrow> sync_queue_row list" where
  "entries_for s i =
     filter (\<lambda>q. table_name q = ''locations'' \<and> record_id q = i) (sync_queue s)"

definition pending_rows :: "tracker_db \<Rightarrow> locations_row list" where
  "pending_rows s = filter (\<lambda>r. synced r = 0) (locations s)"

definition live_entries :: "tracker_db \<Rightarrow> sync_queue_row list" where
  "live_entries s =
     filter (\<lambda>q. table_name q = ''locations'' \<and> record_id q \<in> row_id ` set (pending_rows s))
       (sync_queue s)"

definition pairing :: "tracker_db \<Rightarrow> bool" where
  "pairing s = list_all (\<lambda>r. length (entries_for s (row_id r)) = 1) (pending_rows s)"

text \<open>
  No entry of \<open>sync_queue\<close> refers to an id that AUTOINCREMENT has yet to give out.
\<close>

definition queue_bounded :: "tracker_db \<Rightarrow> bool" where
  "queue_bounded s =
     list_all (\<lambda>q. record_id q \<le> fold max (map row_id (locations s)) (seq_locations s))
       (sync_queue s)"

section \<open>Sample inputs\<close>

definition ready :: app where
  "ready = \<lparr>database = Some TrackerDb, isOnline = True\<rparr>"

definition fix_at :: "real \<Rightarrow> real \<Rightarrow> int \<Rightarrow> location" where
  "fix_at la lo t = \<lparr>latitude = Some (Num la), longitude = Some (Num lo), accuracy = None,
     altitude = None, speed = None, heading = None, timestamp = Some t\<rparr>"

definition three_samples :: tracker_db where
  "three_samples =
     snd (saveLocation ready (fix_at 28.3 77.4 3000)
       (snd (saveLocation ready (fix_at 28.2 77.3 2000)
         (snd (saveLocation ready (fix_at 28.1 77.2 1000) empty_db)))))"

definition one_sample :: tracker_db where
  "one_sample = snd (saveLocation ready (fix_at 28.1 77.2 1000) empty_db)"

section \<open>Auxiliary facts\<close>

lemmas async_defs = resolve_def reject_def await_def try_catch_def

lemma fold_max_ge: "seq \<le> fold max ids seq \<and> (\<forall>i \<in> set ids. i \<le> fold max ids (seq::nat))"
proof (induction ids arbitrary: seq)
  case Nil
  show ?case by simp
next
  case (Cons x xs)
  have a: "max x seq \<le> fold max xs (max x seq)" and
       b: "\<forall>i \<in> set xs. i \<le> fold max xs (max x seq)"
    using Cons.IH [of "max x seq"] by simp_all
  from a b show ?case by auto
qed

lemma autoincrement_fresh: "i \<in> set ids \<Longrightarrow> i < autoincrement seq ids"
  using fold_max_ge [of seq ids] by (auto simp: autoincrement_def less_Suc_eq_le)

section \<open>The effect of each operation on the tables\<close>

lemma logToDatabase_case:
  "(case logToDatabase a msg lvl s of (Inl e, s') \<Rightarrow> f e s' | (Inr x, s') \<Rightarrow> g x s') =
     g () (snd (logToDatabase a msg lvl s))"
  by (simp add: logToDatabase_def insert_app_logs_def async_defs Let_def)

lemma logToDatabase_tables:
  "locations (snd (logToDatabase a msg lvl s)) = locations s \<and>
   sync_queue (snd (logToDatabase a msg lvl s)) = sync_queue s \<and>
   seq_locations (snd (logToDatabase a msg lvl s)) = seq_locations s"
  by (simp add: logToDatabase_def insert_app_logs_def async_defs Let_def)

lemmas engine_defs = saveLocation_def background_location_task_def insert_locations_def
  insert_sync_queue_def location_saved_def logToDatabase_def insert_app_logs_def async_defs

lemma saveLocation_locations:
  "locations (snd (saveLocation a loc s)) = locations s \<or>
   (\<exists>r. row_id r = autoincrement (seq_locations s) (map row_id (locations s)) \<and> synced r = 0 \<and>
        locations (snd (saveLocation a loc s)) = locations s @ [r])"
  by (auto simp: engine_defs Let_def split: option.splits)

lemma background_location_task_locations:
  "locations (snd (background_location_task err locs s)) = locations s \<or>
   (\<exists>r. row_id r = autoincrement (seq_locations s) (map row_id (locations s)) \<and> synced r = 0 \<and>
        locations (snd (background_location_task err locs s)) = locations s @ [r])"
  by (auto simp: engine_defs Let_def split: option.splits list.splits)

lemma syncData_locations:
  "locations (snd (syncData a s)) = locations s \<or>
   locations (snd (syncData a s)) =
     map (\<lambda>r. if row_id r \<in> set (map row_id (listPending s)) then r\<lparr>synced := 1\<rparr> else r)
       (locations s)"
  by (auto simp: syncData_def async_defs logToDatabase_case logToDatabase_tables
        select_unsynced_def markSynced_def delete_sync_queue_def Let_def)

lemma initDatabase_locations: "locations (snd (initDatabase a s)) = locations s"
  by (simp add: initDatabase_def create_tables_def async_defs logToDatabase_case
        logToDatabase_tables)

lemma apply_op_locations:
  "\<not> is_purge op \<Longrightarrow>
   locations (apply_op op s) = locations s \<or>
   (\<exists>r. row_id r = autoincrement (seq_locations s) (map row_id (locations s)) \<and> synced r = 0 \<and>
        locations (apply_op op s) = locations s @ [r]) \<or>
   (\<exists>ids. locations (apply_op op s) =
     map (\<lambda>r. if row_id r \<in> set ids then r\<lparr>synced := 1\<rparr> else r) (locations s))"
proof (cases op)
  case (SaveLocation a loc)
  then show ?thesis using saveLocation_locations [of a loc s] by auto
next
  case (LocationTask err locs)
  then show ?thesis using background_location_task_locations [of err locs s] by auto
next
  case (SyncData a)
  from syncData_locations [of a s] show ?thesis
    unfolding SyncData apply_op.simps by blast
next
  case (LogToDatabase a msg lvl)
  then show ?thesis by (simp add: logToDatabase_tables)
next
  case (InitDatabase a)
  then show ?thesis by (simp add: initDatabase_locations)
next
  case (ClearDatabase a b)
  assume "\<not> is_purge op"
  with ClearDatabase show ?thesis by simp
qed

lemma clearDatabase_locations:
  "locations (snd (clearDatabase a b s)) = locations s \<or> locations (snd (clearDatabase a b s)) = []"
  by (cases b)
    (auto simp: clearDatabase_def async_defs delete_all_def logToDatabase_case
       logToDatabase_tables)

lemma mark_keeps_ids:
  "map row_id (map (\<lambda>r. if row_id r \<in> set ids then r\<lparr>synced := 1\<rparr> else r) xs) = map row_id xs"
  by (induction xs) auto

lemma apply_op_distinct:
  assumes "distinct (map row_id (locations s))"
  shows "distinct (map row_id (locations (apply_op op s)))"
proof (cases "is_purge op")
  case True
  then obtain a b where "op = ClearDatabase a b" by (cases op) auto
  then show ?thesis using assms clearDatabase_locations [of a b s] by auto
next
  case False
  from apply_op_locations [OF False, of s] show ?thesis
  proof (elim disjE exE conjE)
    assume "locations (apply_op op s) = locations s"
    then show ?thesis using assms by simp
  next
    fix r
    assume r: "row_id r = autoincrement (seq_locations s) (map row_id (locations s))"
      and l: "locations (apply_op op s) = locations s @ [r]"
    have "row_id r \<notin> set (map row_id (locations s))"
      using autoincrement_fresh [of "row_id r" "map row_id (locations s)" "seq_locations s"] r
      by auto
    then show ?thesis using assms l by simp
  next
    fix ids
    assume "locations (apply_op op s) =
      map (\<lambda>r. if row_id r \<in> set ids then r\<lparr>synced := 1\<rparr> else r) (locations s)"
    then show ?thesis using assms by (simp only: mark_keeps_ids)
  qed
qed

lemma run_distinct:
  "distinct (map row_id (locations s)) \<Longrightarrow> distinct (map row_id (locations (run ops s)))"
  unfolding run_def
  by (induction ops arbitrary: s) (simp_all add: apply_op_distinct)

lemma apply_op_keeps_synced:
  assumes "\<not> is_purge op" "r \<in> set (locations s)" "synced r = 1"
  shows "r \<in> set (locations (apply_op op s))"
proof -
  from apply_op_locations [OF assms(1), of s] show ?thesis
  proof (elim disjE exE conjE)
    fix ids
    assume l: "locations (apply_op op s) =
      map (\<lambda>r. if row_id r \<in> set ids then r\<lparr>synced := 1\<rparr> else r) (locations s)"
    let ?f = "\<lambda>r. if row_id r \<in> set ids then r\<lparr>synced := 1\<rparr> else r"
    have fr: "?f r = r"
      using assms(3) by simp
    from assms(2) have "?f r \<in> ?f ` set (locations s)"
      by (rule imageI)
    then have "r \<in> ?f ` set (locations s)"
      by (simp only: fr)
    then show ?thesis
      by (simp only: l set_map)
  qed (use assms in auto)
qed

lemma run_keeps_synced:
  "\<forall>op \<in> set ops. \<not> is_purge op \<Longrightarrow> r \<in> set (locations s) \<Longrightarrow> synced r = 1 \<Longrightarrow>
     r \<in> set (locations (run ops s))"
  unfolding run_def
  by (induction ops arbitrary: s) (simp_all add: apply_op_keeps_synced)

section \<open>The text bound by the DELETE\<close>

lemma digit_of_digit_char: "d < 10 \<Longrightarrow> digit_of_char (digit_char d) = Some d"
  by (simp add: digit_of_char_def digit_char_def)

lemma comma_no_digit: "digit_of_char (CHR '','') = None"
  by (simp add: digit_of_char_def)

lemma parse_digits_append:
  "parse_digits acc (xs @ ys) =
     (case parse_digits acc xs of None \<Rightarrow> None | Some v \<Rightarrow> parse_digits v ys)"
  by (induction xs arbitrary: acc) (auto split: option.splits)

lemma parse_digits_None:
  "(parse_digits acc xs = None) = (\<exists>c \<in> set xs. digit_of_char c = None)"
  by (induction xs arbitrary: acc) (auto split: option.splits)

lemma string_of_nat_not_empty: "string_of_nat n \<noteq> []"
  by (subst string_of_nat.simps) simp

lemma parse_string_of_nat: "parse_digits 0 (string_of_nat n) = Some n"
proof (induction n rule: string_of_nat.induct)
  case (1 n)
  show ?case
  proof (cases "n < 10")
    case True
    then show ?thesis
      by (subst string_of_nat.simps) (simp add: digit_of_digit_char)
  next
    case False
    with "1" have ih: "parse_digits 0 (string_of_nat (n div 10)) = Some (n div 10)"
      by simp
    have "n mod 10 < 10" by simp
    then have d: "digit_of_char (digit_char (n mod 10)) = Some (n mod 10)"
      by (rule digit_of_digit_char)
    show ?thesis
      using False
      by (subst string_of_nat.simps) (simp add: parse_digits_append ih d)
  qed
qed

lemma numeric_of_text_join:
  "numeric_of_text (join ids) = (case ids of [x] \<Rightarrow> Some x | _ \<Rightarrow> None)"
proof (cases ids)
  case Nil
  then show ?thesis by (simp add: numeric_of_text_def)
next
  case (Cons x xs)
  show ?thesis
  proof (cases xs)
    case Nil
    with Cons show ?thesis
      by (simp add: numeric_of_text_def string_of_nat_not_empty parse_string_of_nat)
  next
    case (Cons y ys)
    have "CHR '','' \<in> set (join (x # y # ys))" by simp
    then have "parse_digits 0 (join (x # y # ys)) = None"
      unfolding parse_digits_None using comma_no_digit by blast
    with Cons \<open>ids = x # xs\<close> show ?thesis
      by (simp add: numeric_of_text_def)
  qed
qed

lemma integer_eq_text_join: "integer_eq_text n (join ids) = ([n] = ids)"
  by (auto simp: integer_eq_text_def numeric_of_text_join split: list.splits)

lemma delete_sync_queue_join:
  "sync_queue (snd (delete_sync_queue tn (join ids) s)) =
     (case ids of
        [i] \<Rightarrow> filter (\<lambda>q. \<not> (table_name q = tn \<and> i = record_id q)) (sync_queue s)
      | _ \<Rightarrow> sync_queue s)"
  by (auto simp: delete_sync_queue_def integer_eq_text_join split: list.splits
        intro!: filter_cong)

section \<open>Logging before the handle is set\<close>

text \<open>
  C10. With the store handle unset, \<open>logToDatabase\<close> persists nothing and resolves
  without an error. \<open>initDatabase\<close> logs through the handle of the render that created it,
  so when that handle is null the message "Database initialized successfully" is not
  recorded: the database is left as it was. The first render is such a render.
\<close>

theorem logToDatabase_unset_noop:
  "(database a = None \<longrightarrow> logToDatabase a msg lvl s = (Inr (), s)) \<and>
   (database a = None \<longrightarrow> initDatabase a s = (Inr TrackerDb, s)) \<and>
   database initial_app = None"
  by (simp add: logToDatabase_def initDatabase_def create_tables_def async_defs initial_app_def)

theorem logToDatabase_unset_noop_witness:
  "logToDatabase initial_app DatabaseInitialized ''info'' one_sample = (Inr (), one_sample) \<and>
   initDatabase initial_app one_sample = (Inr TrackerDb, one_sample)"
  using logToDatabase_unset_noop [of initial_app DatabaseInitialized "''info''" one_sample]
  by simp

text \<open>With a handle the same call does record the message.\<close>

lemma initDatabase_logs_with_handle:
  "database a \<noteq> None \<Longrightarrow>
     map message (app_logs (snd (initDatabase a s))) =
       map message (app_logs s) @ [DatabaseInitialized]"
  by (auto simp: logToDatabase_def initDatabase_def create_tables_def insert_app_logs_def
        async_defs Let_def)

section \<open>Capture\<close>

text \<open>
  C5, as the code has it. A fix given to \<open>saveLocation\<close> while the store handle is unset is
  dropped: the call resolves without an error and the database is unchanged.
\<close>

theorem saveLocation_unset_drops:
  "database a = None \<Longrightarrow> saveLocation a loc s = (Inr (), s)"
  by (simp add: saveLocation_def resolve_def)

theorem saveLocation_unset_drops_witness:
  "database initial_app = None \<and>
   saveLocation initial_app (fix_at 28.2 77.3 2000) one_sample = (Inr (), one_sample)"
  using saveLocation_unset_drops [of initial_app "fix_at 28.2 77.3 2000" one_sample]
  by (simp add: initial_app_def)

text \<open>
  C5 as stated fails: before initialisation no error reaches the caller and nothing is stored.
\<close>

theorem saveLocation_unset_counterexample:
  "\<not> isl (fst (saveLocation initial_app (fix_at 28.1 77.2 1000) empty_db)) \<and>
   snd (saveLocation initial_app (fix_at 28.1 77.2 1000) empty_db) = empty_db"
  by (simp add: saveLocation_def resolve_def initial_app_def)

text \<open>
  C4, as the code has it. \<open>saveLocation\<close> checks no range and raises no error. With the
  handle set, a fix whose latitude or longitude is missing or NaN is refused by the NOT NULL
  constraint: \<open>locations\<close> and \<open>sync_queue\<close> are unchanged, the statistics are unchanged,
  one error-level entry "Failed to save location" is logged, and the call resolves. A fix
  with a timestamp whose latitude and longitude are numbers other than NaN, finite of any
  size or infinite, is appended to \<open>locations\<close> as a pending row under a new id, with one
  \<open>sync_queue\<close> entry for that id.
\<close>

theorem saveLocation_validation:
  "database a \<noteq> None \<Longrightarrow>
   fst (saveLocation a loc s) = Inr () \<and>
   (latitude loc = None \<or> latitude loc = Some NaN \<or>
    longitude loc = None \<or> longitude loc = Some NaN \<longrightarrow>
      locations (snd (saveLocation a loc s)) = locations s \<and>
      sync_queue (snd (saveLocation a loc s)) = sync_queue s \<and>
      loadStats a (snd (saveLocation a loc s)) = loadStats a s \<and>
      (\<exists>m. map (\<lambda>l. (message l, level l)) (app_logs (snd (saveLocation a loc s))) =
           map (\<lambda>l. (message l, level l)) (app_logs s) @
             [(FailedToSaveLocation m, ''error'')])) \<and>
   (\<forall>la lo t. latitude loc = Some la \<and> la \<noteq> NaN \<and> longitude loc = Some lo \<and> lo \<noteq> NaN \<and>
        timestamp loc = Some t \<longrightarrow>
      (\<exists>i. i \<notin> row_id ` set (locations s) \<and>
         locations (snd (saveLocation a loc s)) = locations s @
           [\<lparr>row_id = i, row_latitude = la, row_longitude = lo,
             row_accuracy = bind_double (accuracy loc),
             row_altitude = bind_double (altitude loc),
             row_speed = bind_double (speed loc),
             row_heading = bind_double (heading loc),
             row_timestamp = t, synced = 0\<rparr>] \<and>
         map (\<lambda>q. (table_name q, record_id q)) (sync_queue (snd (saveLocation a loc s))) =
           map (\<lambda>q. (table_name q, record_id q)) (sync_queue s) @ [(''locations'', i)]))"
proof (intro conjI impI allI)
  assume h: "database a \<noteq> None"
  show "fst (saveLocation a loc s) = Inr ()"
    using h
    by (auto simp: saveLocation_def insert_locations_def logToDatabase_def
          insert_app_logs_def insert_sync_queue_def location_saved_def async_defs Let_def
          bind_double_def split: option.splits number.splits)
next
  assume h: "database a \<noteq> None"
    and m: "latitude loc = None \<or> latitude loc = Some NaN \<or>
            longitude loc = None \<or> longitude loc = Some NaN"
  from m have b: "bind_double (latitude loc) = None \<or> bind_double (longitude loc) = None"
    by (auto simp: bind_double_def)
  show "locations (snd (saveLocation a loc s)) = locations s"
    using h b
    by (auto simp: saveLocation_def insert_locations_def logToDatabase_def
          insert_app_logs_def async_defs Let_def split: option.splits)
  show "sync_queue (snd (saveLocation a loc s)) = sync_queue s"
    using h b
    by (auto simp: saveLocation_def insert_locations_def logToDatabase_def
          insert_app_logs_def async_defs Let_def split: option.splits)
  show "loadStats a (snd (saveLocation a loc s)) = loadStats a s"
    using h b
    by (auto simp: saveLocation_def insert_locations_def logToDatabase_def
          insert_app_logs_def loadStats_def async_defs Let_def split: option.splits)
  show "\<exists>m. map (\<lambda>l. (message l, level l)) (app_logs (snd (saveLocation a loc s))) =
           map (\<lambda>l. (message l, level l)) (app_logs s) @ [(FailedToSaveLocation m, ''error'')]"
    using h b
    by (auto simp: saveLocation_def insert_locations_def logToDatabase_def
          insert_app_logs_def async_defs Let_def split: option.splits)
next
  fix la lo t
  assume h: "database a \<noteq> None"
    and v: "latitude loc = Some la \<and> la \<noteq> NaN \<and> longitude loc = Some lo \<and> lo \<noteq> NaN \<and>
            timestamp loc = Some t"
  from v have b: "bind_double (latitude loc) = Some la" "bind_double (longitude loc) = Some lo"
    by (auto simp: bind_double_def split: number.splits)
  define i where "i = autoincrement (seq_locations s) (map row_id (locations s))"
  have fresh: "i \<notin> row_id ` set (locations s)"
    using autoincrement_fresh [of i "map row_id (locations s)" "seq_locations s"]
    by (auto simp: i_def)
  have "locations (snd (saveLocation a loc s)) = locations s @
           [\<lparr>row_id = i, row_latitude = la, row_longitude = lo,
             row_accuracy = bind_double (accuracy loc),
             row_altitude = bind_double (altitude loc),
             row_speed = bind_double (speed loc),
             row_heading = bind_double (heading loc),
             row_timestamp = t, synced = 0\<rparr>]"
    using h v b
    by (auto simp: saveLocation_def insert_locations_def logToDatabase_def
          insert_app_logs_def insert_sync_queue_def location_saved_def async_defs Let_def i_def)
  moreover have
    "map (\<lambda>q. (table_name q, record_id q)) (sync_queue (snd (saveLocation a loc s))) =
       map (\<lambda>q. (table_name q, record_id q)) (sync_queue s) @ [(''locations'', i)]"
    using h v b
    by (auto simp: saveLocation_def insert_locations_def logToDatabase_def
          insert_app_logs_def insert_sync_queue_def location_saved_def async_defs Let_def i_def)
  ultimately show "\<exists>i. i \<notin> row_id ` set (locations s) \<and>
         locations (snd (saveLocation a loc s)) = locations s @
           [\<lparr>row_id = i, row_latitude = la, row_longitude = lo,
             row_accuracy = bind_double (accuracy loc),
             row_altitude = bind_double (altitude loc),
             row_speed = bind_double (speed loc),
             row_heading = bind_double (heading loc),
             row_timestamp = t, synced = 0\<rparr>] \<and>
         map (\<lambda>q. (table_name q, record_id q)) (sync_queue (snd (saveLocation a loc s))) =
           map (\<lambda>q. (table_name q, record_id q)) (sync_queue s) @ [(''locations'', i)]"
    using fresh by blast
qed

text \<open>
  C4 as stated fails: a fix with latitude 200 is stored, the total grows and a queue entry
  is created; a fix with an infinite latitude is stored as well; and a fix with no
  latitude, which is refused, raises no error.
\<close>

theorem saveLocation_latitude_200_counterexample:
  "fst (saveLocation ready (fix_at 200 77.2 1000) empty_db) = Inr () \<and>
   map row_latitude (locations (snd (saveLocation ready (fix_at 200 77.2 1000) empty_db)))
     = [Num 200] \<and>
   map record_id (sync_queue (snd (saveLocation ready (fix_at 200 77.2 1000) empty_db)))
     = [1] \<and>
   map_option total (loadStats ready empty_db) = Some 0 \<and>
   map_option total
     (loadStats ready (snd (saveLocation ready (fix_at 200 77.2 1000) empty_db))) = Some 1 \<and>
   map row_latitude
     (locations (snd (saveLocation ready
        ((fix_at 0 77.2 1000)\<lparr>latitude := Some Infinity\<rparr>) empty_db))) = [Infinity] \<and>
   fst (saveLocation ready ((fix_at 0 77.2 1000)\<lparr>latitude := None\<rparr>) empty_db) = Inr ()"
  by code_simp

theorem saveLocation_validation_witness:
  "database ready \<noteq> None \<and>
   fst (saveLocation ready ((fix_at 0 77.2 1000)\<lparr>latitude := Some NaN\<rparr>) one_sample) = Inr () \<and>
   locations (snd (saveLocation ready ((fix_at 0 77.2 1000)\<lparr>latitude := Some NaN\<rparr>) one_sample))
     = locations one_sample \<and>
   sync_queue (snd (saveLocation ready ((fix_at 0 77.2 1000)\<lparr>latitude := Some NaN\<rparr>) one_sample))
     = sync_queue one_sample \<and>
   map row_latitude
     (locations (snd (saveLocation ready
        ((fix_at 0 77.2 2000)\<lparr>latitude := Some NegInfinity\<rparr>) one_sample)))
     = [Num 28.1, NegInfinity]"
proof -
  have v: "map row_latitude (locations one_sample) = [Num 28.1]"
    by code_simp
  obtain i where
    "locations (snd (saveLocation ready
        ((fix_at 0 77.2 2000)\<lparr>latitude := Some NegInfinity\<rparr>) one_sample)) =
      locations one_sample @
        [\<lparr>row_id = i, row_latitude = NegInfinity, row_longitude = Num 77.2,
          row_accuracy = bind_double None, row_altitude = bind_double None,
          row_speed = bind_double None, row_heading = bind_double None,
          row_timestamp = 2000, synced = 0\<rparr>]"
    using saveLocation_validation
      [of ready "(fix_at 0 77.2 2000)\<lparr>latitude := Some NegInfinity\<rparr>" one_sample]
    by (auto simp: ready_def fix_at_def)
  then show ?thesis
    using v saveLocation_validation
      [of ready "(fix_at 0 77.2 1000)\<lparr>latitude := Some NaN\<rparr>" one_sample]
    by (simp add: ready_def fix_at_def)
qed

section \<open>Marking and listing\<close>

text \<open>
  C7. \<open>markSynced\<close>, the UPDATE of \<open>syncData\<close>, never fails; marking with one id list and
  then with another gives the database that marking once with both gives, whether or not
  the lists overlap; marking twice with the same list is marking once; and marking ids
  whose rows are all synced already changes nothing.
\<close>

theorem markSynced_idempotent:
  "fst (markSynced ids s) = Inr () \<and>
   markSynced ids (snd (markSynced ids s)) = markSynced ids s \<and>
   snd (markSynced ids2 (snd (markSynced ids1 s))) = snd (markSynced (ids1 @ ids2) s) \<and>
   ((\<forall>r \<in> set (locations s). row_id r \<in> set ids \<longrightarrow> synced r = 1) \<longrightarrow>
      markSynced ids s = (Inr (), s))"
proof (intro conjI impI)
  show "fst (markSynced ids s) = Inr ()"
    by (simp add: markSynced_def)
  show "markSynced ids (snd (markSynced ids s)) = markSynced ids s"
    by (auto simp: markSynced_def)
  show "snd (markSynced ids2 (snd (markSynced ids1 s))) = snd (markSynced (ids1 @ ids2) s)"
    by (auto simp: markSynced_def)
next
  assume "\<forall>r \<in> set (locations s). row_id r \<in> set ids \<longrightarrow> synced r = 1"
  then show "markSynced ids s = (Inr (), s)"
    by (simp add: markSynced_def map_idI)
qed

theorem markSynced_idempotent_witness:
  "map (\<lambda>r. (row_id r, synced r)) (locations (snd (markSynced [1, 2] three_samples)))
     = [(1, 1), (2, 1), (3, 0)] \<and>
   snd (markSynced [2, 3] (snd (markSynced [1, 2] three_samples)))
     = snd (markSynced [1, 2, 2, 3] three_samples) \<and>
   markSynced [2] (snd (markSynced [1, 2] three_samples))
     = (Inr (), snd (markSynced [1, 2] three_samples))"
proof -
  have v: "map (\<lambda>r. (row_id r, synced r)) (locations (snd (markSynced [1, 2] three_samples)))
     = [(1, 1), (2, 1), (3, 0)]"
    by code_simp
  have h: "\<forall>r \<in> set (locations (snd (markSynced [1, 2] three_samples))).
      row_id r \<in> set [2] \<longrightarrow> synced r = 1"
    by code_simp
  show ?thesis
    using v h
      markSynced_idempotent [of "[2]" "snd (markSynced [1, 2] three_samples)" "[2, 3]" "[1, 2]"]
      markSynced_idempotent [of "[]" three_samples "[2, 3]" "[1, 2]"]
    by simp
qed

text \<open>
  C8. \<open>listPending\<close>, the SELECT of \<open>syncData\<close>, returns pending rows only, each as often as
  the table holds it, in ascending order of timestamp; it returns 100 of them, or all of
  them when there are no more than 100; and a pending row that it leaves out is no older
  than any row it returns.
\<close>

theorem listPending_oldest_first:
  "sorted (map row_timestamp (listPending s)) \<and>
   length (listPending s) = min 100 (length (filter (\<lambda>r. synced r = 0) (locations s))) \<and>
   mset (listPending s) \<subseteq># mset (filter (\<lambda>r. synced r = 0) (locations s)) \<and>
   (length (filter (\<lambda>r. synced r = 0) (locations s)) \<le> 100 \<longrightarrow>
      mset (listPending s) = mset (filter (\<lambda>r. synced r = 0) (locations s))) \<and>
   (\<forall>r \<in> set (listPending s). \<forall>r' \<in> set (locations s).
      synced r' = 0 \<and> r' \<notin> set (listPending s) \<longrightarrow> row_timestamp r \<le> row_timestamp r')"
proof -
  define ps where "ps = filter (\<lambda>r. synced r = 0) (locations s)"
  define xs where "xs = sort_key row_timestamp ps"
  have lp: "listPending s = take 100 xs"
    by (simp add: listPending_def xs_def ps_def)
  have srt: "sorted (map row_timestamp xs)"
    by (simp add: xs_def)
  have ms: "mset xs = mset ps"
    by (simp add: xs_def)
  have split: "xs = take 100 xs @ drop 100 xs"
    by simp
  have "sorted (map row_timestamp (take 100 xs))"
    using srt by (simp add: take_map [symmetric] sorted_wrt_take)
  moreover have "length (take 100 xs) = min 100 (length ps)"
    by (simp add: xs_def min.commute)
  moreover have "mset (take 100 xs) \<subseteq># mset ps"
  proof -
    have "mset (take 100 xs) \<subseteq># mset (take 100 xs @ drop 100 xs)"
      by (simp only: mset_append mset_subset_eq_add_left)
    then show ?thesis using ms by simp
  qed
  moreover have "length ps \<le> 100 \<longrightarrow> mset (take 100 xs) = mset ps"
    using ms by (simp add: xs_def)
  moreover have "\<forall>r \<in> set (take 100 xs). \<forall>r' \<in> set (locations s).
     synced r' = 0 \<and> r' \<notin> set (take 100 xs) \<longrightarrow> row_timestamp r \<le> row_timestamp r'"
  proof (intro ballI impI)
    fix r r'
    assume r: "r \<in> set (take 100 xs)" and r': "r' \<in> set (locations s)"
      and h: "synced r' = 0 \<and> r' \<notin> set (take 100 xs)"
    have "r' \<in> set xs"
      using r' h by (simp add: xs_def ps_def)
    then have "r' \<in> set (take 100 xs) \<union> set (drop 100 xs)"
      using split by (metis set_append)
    then have d: "r' \<in> set (drop 100 xs)"
      using h by simp
    have "sorted (map row_timestamp (take 100 xs) @ map row_timestamp (drop 100 xs))"
      using srt split by (metis map_append)
    then show "row_timestamp r \<le> row_timestamp r'"
      using r d by (auto simp: sorted_append)
  qed
  ultimately show ?thesis
    unfolding lp ps_def by blast
qed

theorem listPending_oldest_first_witness:
  "length (filter (\<lambda>r. synced r = 0) (locations three_samples)) \<le> 100 \<and>
   map row_timestamp (listPending three_samples) = [1000, 2000, 3000] \<and>
   mset (listPending three_samples)
     = mset (filter (\<lambda>r. synced r = 0) (locations three_samples))"
proof -
  have h: "length (filter (\<lambda>r. synced r = 0) (locations three_samples)) \<le> 100"
    by code_simp
  have v: "map row_timestamp (listPending three_samples) = [1000, 2000, 3000]"
    by code_simp
  show ?thesis
    using h v listPending_oldest_first [of three_samples] by blast
qed

section \<open>Purge\<close>

text \<open>
  C9, as the code has it. When \<open>clearDatabase\<close> runs with the handle set and the user
  confirms, \<open>locations\<close> and \<open>sync_queue\<close> end empty and \<open>app_logs\<close> ends with exactly one
  entry, "Database cleared", which is written after the deletion.
\<close>

theorem clearDatabase_leaves_one_log:
  "database a \<noteq> None \<Longrightarrow>
   fst (clearDatabase a Clear s) = Inr () \<and>
   locations (snd (clearDatabase a Clear s)) = [] \<and>
   sync_queue (snd (clearDatabase a Clear s)) = [] \<and>
   map message (app_logs (snd (clearDatabase a Clear s))) = [DatabaseCleared]"
  by (auto simp: clearDatabase_def logToDatabase_def delete_all_def insert_app_logs_def
        async_defs Let_def)

theorem clearDatabase_leaves_one_log_witness:
  "database ready \<noteq> None \<and>
   locations (snd (clearDatabase ready Clear three_samples)) = [] \<and>
   sync_queue (snd (clearDatabase ready Clear three_samples)) = [] \<and>
   map message (app_logs (snd (clearDatabase ready Clear three_samples))) = [DatabaseCleared]"
  using clearDatabase_leaves_one_log [of ready three_samples]
  by (simp add: ready_def)

text \<open>C9 as stated fails: after the purge the audit log is not empty.\<close>

theorem clearDatabase_log_counterexample:
  "map message (app_logs (snd (clearDatabase ready Clear three_samples))) = [DatabaseCleared] \<and>
   app_logs (snd (clearDatabase ready Clear three_samples)) \<noteq> []"
  by code_simp

section \<open>The scenario of three samples\<close>

text \<open>
  C2, evaluated. After three samples the statistics are 3 in total, 0 synced, 3 pending;
  after one \<open>syncData\<close> they are 3, 3 and 0; but \<open>sync_queue\<close> still holds its three entries,
  because the DELETE compares \<open>record_id\<close> with the single text "1,2,3".
\<close>

theorem three_samples_sync_leaves_queue:
  "loadStats ready three_samples =
     Some \<lparr>total = 3, n_synced = Some 0, n_pending = Some 3\<rparr> \<and>
   fst (syncData ready three_samples) = Inr () \<and>
   loadStats ready (snd (syncData ready three_samples)) =
     Some \<lparr>total = 3, n_synced = Some 3, n_pending = Some 0\<rparr> \<and>
   join (map row_id (listPending three_samples)) = ''1,2,3'' \<and>
   map record_id (sync_queue (snd (syncData ready three_samples))) = [1, 2, 3]"
  by code_simp

theorem three_samples_sync_leaves_queue_witness:
  "sync_queue (snd (syncData ready three_samples)) \<noteq> []"
  using three_samples_sync_leaves_queue by auto

text \<open>A batch of one row is removed from the queue: its text is an integer literal.\<close>

lemma one_sample_sync_empties_queue:
  "sync_queue one_sample \<noteq> [] \<and> sync_queue (snd (syncData ready one_sample)) = []"
  by code_simp

section \<open>Monotonic synchronisation\<close>

lemma empty_distinct: "distinct (map row_id (locations empty_db))"
  by (simp add: empty_db_def)

text \<open>
  C6. Take any state the operations can reach from the empty database and a row of it that
  is synced. After any further sequence of operations without a purge (captures by
  \<open>saveLocation\<close> or by the background task, synchronisations, log entries,
  initialisations; \<open>loadStats\<close> only reads) the row is still in \<open>locations\<close>, unchanged, and
  every row with its id is synced: the sample does not go back to pending.
\<close>

theorem synced_never_reverts:
  assumes "\<forall>op \<in> set ops. \<not> is_purge op"
    and "r \<in> set (locations (run ops0 empty_db))" and "synced r = 1"
  shows "r \<in> set (locations (run ops (run ops0 empty_db))) \<and>
         (\<forall>r' \<in> set (locations (run ops (run ops0 empty_db))).
            row_id r' = row_id r \<longrightarrow> synced r' = 1)"
proof -
  let ?s = "run ops (run ops0 empty_db)"
  have m: "r \<in> set (locations ?s)"
    using assms by (rule run_keeps_synced)
  have d: "distinct (map row_id (locations ?s))"
    by (intro run_distinct empty_distinct)
  have "\<forall>r' \<in> set (locations ?s). row_id r' = row_id r \<longrightarrow> r' = r"
    using d m by (auto simp: distinct_map dest: inj_onD)
  then show ?thesis using m assms(3) by auto
qed

theorem synced_never_reverts_witness:
  "map (\<lambda>r. (row_id r, synced r))
     (locations (run [SaveLocation ready (fix_at 28.1 77.2 1000), SyncData ready] empty_db))
     = [(1, 1)] \<and>
   map (\<lambda>r. (row_id r, synced r))
     (locations (run [SaveLocation ready (fix_at 28.2 77.3 2000),
                      LocationTask False [fix_at 28.3 77.4 3000], SyncData ready]
        (run [SaveLocation ready (fix_at 28.1 77.2 1000), SyncData ready] empty_db)))
     = [(1, 1), (2, 1), (3, 1)] \<and>
   hd (locations (run [SaveLocation ready (fix_at 28.1 77.2 1000), SyncData ready] empty_db))
     \<in> set (locations (run [SaveLocation ready (fix_at 28.2 77.3 2000),
                      LocationTask False [fix_at 28.3 77.4 3000], SyncData ready]
        (run [SaveLocation ready (fix_at 28.1 77.2 1000), SyncData ready] empty_db)))"
proof -
  let ?before = "[SaveLocation ready (fix_at 28.1 77.2 1000), SyncData ready]"
  let ?after = "[SaveLocation ready (fix_at 28.2 77.3 2000),
               LocationTask False [fix_at 28.3 77.4 3000], SyncData ready]"
  let ?r = "hd (locations (run ?before empty_db))"
  have h0: "\<forall>op \<in> set ?after. \<not> is_purge op"
    by simp
  have h1: "?r \<in> set (locations (run ?before empty_db))"
    by code_simp
  have h2: "synced ?r = 1"
    by code_simp
  have v0: "map (\<lambda>r. (row_id r, synced r)) (locations (run ?before empty_db)) = [(1, 1)]"
    by code_simp
  have v1: "map (\<lambda>r. (row_id r, synced r)) (locations (run ?after (run ?before empty_db)))
     = [(1, 1), (2, 1), (3, 1)]"
    by code_simp
  from synced_never_reverts [OF h0 h1 h2] v0 v1 show ?thesis
    by blast
qed

section \<open>Concurrent triggers\<close>

lemma filter_update_count:
  "i < length xs \<Longrightarrow>
     length (filter P (xs[i := y])) + (if P (xs ! i) then 1 else 0) =
     length (filter P xs) + (if P y then 1 else 0)"
proof (induction xs arbitrary: i)
  case Nil
  then show ?case by simp
next
  case (Cons x xs)
  show ?case
  proof (cases i)
    case 0
    then show ?thesis by simp
  next
    case (Suc j)
    with Cons.prems have "j < length xs" by simp
    from Cons.IH [OF this] Suc show ?thesis by simp
  qed
qed

lemma logToDatabase_set:
  "database a \<noteq> None \<Longrightarrow>
     \<exists>l. message l = msg \<and> level l = lvl \<and>
         app_logs (snd (logToDatabase a msg lvl s)) = app_logs s @ [l]"
  by (auto simp: logToDatabase_def insert_app_logs_def async_defs Let_def)

lemma batch_marked_same:
  "locations s' = locations s \<Longrightarrow> batch_marked s rows \<Longrightarrow> batch_marked s' rows"
  by (simp add: batch_marked_def)

lemma batch_marked_mark:
  "batch_marked s rows \<Longrightarrow> batch_marked (snd (markSynced ids s)) rows"
  by (auto simp: batch_marked_def markSynced_def list_all_iff)

lemma batch_marked_self: "batch_marked (snd (markSynced (map row_id rows) s)) rows"
  by (auto simp: batch_marked_def markSynced_def list_all_iff)

lemma sync_step_Triggered:
  "sync_step a Triggered s =
     (if passes_guard a then (Selected (listPending s), s) else (Finished, s))"
  by (auto simp: passes_guard_def select_unsynced_def)

lemma sync_step_empty:
  "sync_step a (Selected []) s = (Finished, snd (logToDatabase a NoDataToSync ''info'' s))"
  by (simp add: logToDatabase_case)

lemma sync_step_Selected:
  "rows \<noteq> [] \<Longrightarrow>
     sync_step a (Selected rows) s = (Marked rows, snd (markSynced (map row_id rows) s))"
  by (simp add: markSynced_def)

lemma sync_step_Marked:
  "sync_step a (Marked rows) s =
     (Dequeued rows, snd (delete_sync_queue ''locations'' (join (map row_id rows)) s))"
  by (simp add: delete_sync_queue_def)

lemma sync_step_Dequeued:
  "sync_step a (Dequeued rows) s =
     (Finished, snd (logToDatabase a (Synced (length rows)) ''info'' s))"
  by (simp add: logToDatabase_case)

lemma sync_step_inv:
  assumes ok: "task_ok s (a, t)" and st: "sync_step a t s = (t', s')"
  shows "task_ok s' (a, t') \<and>
     (\<forall>rows. batch_marked s rows \<longrightarrow> batch_marked s' rows) \<and>
     (if passes_guard a \<and> t \<noteq> Finished \<and> t' = Finished
      then \<exists>l. sync_entry l \<and> app_logs s' = app_logs s @ [l]
      else app_logs s' = app_logs s)"
proof (cases t)
  case Triggered
  from st have "(if passes_guard a then (Selected (listPending s), s) else (Finished, s))
      = (t', s')"
    unfolding Triggered by (simp only: sync_step_Triggered)
  then show ?thesis
    by (cases "passes_guard a") (auto simp: task_ok_def Triggered)
next
  case (Selected rows)
  with ok have g: "passes_guard a" by (simp add: task_ok_def)
  then have d: "database a \<noteq> None" by (simp add: passes_guard_def)
  show ?thesis
  proof (cases "rows = []")
    case True
    from st have "(Finished, snd (logToDatabase a NoDataToSync ''info'' s)) = (t', s')"
      unfolding Selected True sync_step_empty .
    then have r: "t' = Finished" "s' = snd (logToDatabase a NoDataToSync ''info'' s)"
      by simp_all
    from logToDatabase_set [OF d, of NoDataToSync "''info''" s] obtain l where
      l: "message l = NoDataToSync" "level l = ''info''" "app_logs s' = app_logs s @ [l]"
      unfolding r by blast
    then have "sync_entry l" by (simp add: sync_entry_def)
    moreover have "locations s' = locations s"
      unfolding r by (simp add: logToDatabase_tables)
    ultimately show ?thesis
      using g Selected r(1) l(3) by (auto simp: task_ok_def batch_marked_same)
  next
    case False
    from st have "(Marked rows, snd (markSynced (map row_id rows) s)) = (t', s')"
      unfolding Selected sync_step_Selected [OF False] .
    then have r: "t' = Marked rows" "s' = snd (markSynced (map row_id rows) s)"
      by simp_all
    have "app_logs s' = app_logs s"
      unfolding r by (simp add: markSynced_def)
    then show ?thesis
      using g False r(1) batch_marked_self [of rows s] batch_marked_mark [of s _ "map row_id rows"]
      unfolding r(2) by (auto simp: task_ok_def)
  qed
next
  case (Marked rows)
  with ok have g: "passes_guard a" "rows \<noteq> []" "batch_marked s rows"
    by (simp_all add: task_ok_def)
  from st have "(Dequeued rows,
      snd (delete_sync_queue ''locations'' (join (map row_id rows)) s)) = (t', s')"
    unfolding Marked sync_step_Marked .
  then have r: "t' = Dequeued rows"
      "s' = snd (delete_sync_queue ''locations'' (join (map row_id rows)) s)"
    by simp_all
  have "app_logs s' = app_logs s" "locations s' = locations s"
    unfolding r by (simp_all add: delete_sync_queue_def)
  then show ?thesis
    using g r(1) by (auto simp: task_ok_def batch_marked_same)
next
  case (Dequeued rows)
  with ok have g: "passes_guard a" "rows \<noteq> []"
    by (simp_all add: task_ok_def)
  then have d: "database a \<noteq> None" by (simp add: passes_guard_def)
  from st have "(Finished, snd (logToDatabase a (Synced (length rows)) ''info'' s)) = (t', s')"
    unfolding Dequeued sync_step_Dequeued .
  then have r: "t' = Finished"
      "s' = snd (logToDatabase a (Synced (length rows)) ''info'' s)"
    by simp_all
  from logToDatabase_set [OF d, of "Synced (length rows)" "''info''" s] obtain l where
    l: "message l = Synced (length rows)" "level l = ''info''" "app_logs s' = app_logs s @ [l]"
    unfolding r by blast
  then have "sync_entry l" using g(2) by (simp add: sync_entry_def)
  moreover have "locations s' = locations s"
    unfolding r by (simp add: logToDatabase_tables)
  ultimately show ?thesis
    using g(1) Dequeued r(1) l(3) by (auto simp: task_ok_def batch_marked_same)
next
  case Finished
  with st show ?thesis by (auto simp: task_ok_def)
qed

lemma task_ok_mono:
  "task_ok s x \<Longrightarrow> (\<forall>rows. batch_marked s rows \<longrightarrow> batch_marked s' rows) \<Longrightarrow> task_ok s' x"
  by (auto simp: task_ok_def split: sync_task.splits)

lemma sched_step_inv:
  assumes ok: "\<forall>x \<in> set ts. task_ok s x"
    and lg: "app_logs s = base @ new" "list_all sync_entry new"
      "length new = episodes_finished ts"
    and st: "sched_step i (ts, s) = (ts', s')"
  shows "(\<forall>x \<in> set ts'. task_ok s' x) \<and>
     (\<exists>new'. app_logs s' = base @ new' \<and> list_all sync_entry new' \<and>
        length new' = episodes_finished ts')"
proof (cases "i < length ts")
  case False
  with st have "ts' = ts" "s' = s" by (simp_all add: sched_step_def)
  with ok lg show ?thesis by blast
next
  case True
  obtain a t where at: "ts ! i = (a, t)" by (cases "ts ! i")
  obtain t1 s1 where ss: "sync_step a t s = (t1, s1)" by (cases "sync_step a t s")
  from st True at ss have r: "ts' = ts[i := (a, t1)]" "s' = s1"
    by (simp_all add: sched_step_def)
  have mem: "(a, t) \<in> set ts" using True at by (metis nth_mem)
  with ok have okt: "task_ok s (a, t)" by blast
  from sync_step_inv [OF okt ss] have
    ok1: "task_ok s1 (a, t1)" and
    mono: "\<forall>rows. batch_marked s rows \<longrightarrow> batch_marked s1 rows" and
    logs: "if passes_guard a \<and> t \<noteq> Finished \<and> t1 = Finished
      then \<exists>l. sync_entry l \<and> app_logs s1 = app_logs s @ [l]
      else app_logs s1 = app_logs s"
    by simp_all
  have inv: "\<forall>x \<in> set ts'. task_ok s' x"
  proof
    fix x
    assume "x \<in> set ts'"
    then have "x = (a, t1) \<or> x \<in> set ts"
      unfolding r using set_update_subset_insert [of ts i "(a, t1)"] by auto
    then show "task_ok s' x"
      using ok1 ok mono task_ok_mono unfolding r by blast
  qed
  have fin: "t = Finished \<Longrightarrow> t1 = Finished"
    using ss by simp
  let ?P = "\<lambda>(a, t). passes_guard a \<and> t = Finished"
  from filter_update_count [OF True, of ?P "(a, t1)"] at have cnt:
    "episodes_finished ts' + (if passes_guard a \<and> t = Finished then 1 else 0) =
     episodes_finished ts + (if passes_guard a \<and> t1 = Finished then 1 else 0)"
    by (simp add: episodes_finished_def r)
  show ?thesis
  proof (cases "passes_guard a \<and> t \<noteq> Finished \<and> t1 = Finished")
    case True
    with logs obtain l where l: "sync_entry l" "app_logs s1 = app_logs s @ [l]" by auto
    from True cnt have "episodes_finished ts' = Suc (episodes_finished ts)" by simp
    with l lg have "app_logs s' = base @ (new @ [l]) \<and> list_all sync_entry (new @ [l]) \<and>
        length (new @ [l]) = episodes_finished ts'"
      unfolding r by simp
    with inv show ?thesis by blast
  next
    case False
    with logs have "app_logs s1 = app_logs s" by auto
    moreover from False cnt fin have "episodes_finished ts' = episodes_finished ts"
      by (auto split: if_splits)
    ultimately have "app_logs s' = base @ new \<and> list_all sync_entry new \<and>
        length new = episodes_finished ts'"
      using lg unfolding r by simp
    with inv show ?thesis by blast
  qed
qed

lemma run_schedule_inv:
  "\<forall>x \<in> set ts. task_ok s x \<Longrightarrow>
   app_logs s = base @ new \<Longrightarrow> list_all sync_entry new \<Longrightarrow>
   length new = episodes_finished ts \<Longrightarrow>
     (\<forall>x \<in> set (fst (run_schedule sched (ts, s))). task_ok (snd (run_schedule sched (ts, s))) x) \<and>
     (\<exists>new'. app_logs (snd (run_schedule sched (ts, s))) = base @ new' \<and>
        list_all sync_entry new' \<and>
        length new' = episodes_finished (fst (run_schedule sched (ts, s))))"
proof (induction sched arbitrary: ts s new)
  case Nil
  then show ?case by (auto simp: run_schedule_def)
next
  case (Cons i sched)
  obtain ts1 s1 where st: "sched_step i (ts, s) = (ts1, s1)" by (cases "sched_step i (ts, s)")
  from sched_step_inv [OF Cons.prems st] obtain new1 where
    inv: "\<forall>x \<in> set ts1. task_ok s1 x" and
    l: "app_logs s1 = base @ new1" "list_all sync_entry new1"
       "length new1 = episodes_finished ts1"
    by blast
  have e: "run_schedule (i # sched) (ts, s) = run_schedule sched (ts1, s1)"
    using st by (simp add: run_schedule_def)
  from Cons.IH [OF inv l] show ?case
    unfolding e .
qed

lemma syncData_by_steps:
  "run_schedule [0, 0, 0, 0] ([(a, Triggered)], s) = ([(a, Finished)], snd (syncData a s))"
  by (auto simp: run_schedule_def sched_step_def syncData_def select_unsynced_def
        markSynced_def delete_sync_queue_def logToDatabase_case async_defs Let_def)

text \<open>
  The listener for connectivity changes is registered by the first render, so the
  \<open>syncData\<close> it calls reads the first render's \<open>database\<close>, which is null.
\<close>

lemma connectivity_trigger_noop: "syncData initial_app s = (Inr (), s)"
  by (simp add: syncData_def initial_app_def resolve_def)

text \<open>
  C1, as the code has it. \<open>syncData\<close> has no in-flight flag: its only guard is that the
  store handle is set and the app is online. A call that fails the guard is a no-op. A call
  that passes it runs its own episode in whatever state the other calls in progress have
  left the database: it reads the pending batch; with an empty batch it logs "No data to
  sync" and ends; otherwise it marks the rows of its batch, runs the DELETE for its batch,
  logs "Synced k locations" with k the size of its batch, and ends. A step of a schedule is
  the step of the call it names, the other calls staying where they are. In every
  interleaving of any number of calls, the calls that passed the guard and have ended have
  each appended one audit entry, "No data to sync" or "Synced k locations" at level info, and
  nothing else has been logged; every call past its UPDATE has a batch that is not empty
  and is marked. The handler of the periodic wake calls no \<open>syncData\<close> and leaves the
  database as it is.
\<close>

theorem every_trigger_runs:
  "sync_step a Triggered s =
     (if passes_guard a then (Selected (listPending s), s) else (Finished, s)) \<and>
   (passes_guard a \<longrightarrow>
      fst (sync_step a (Selected []) s) = Finished \<and>
      locations (snd (sync_step a (Selected []) s)) = locations s \<and>
      sync_queue (snd (sync_step a (Selected []) s)) = sync_queue s \<and>
      map (\<lambda>l. (message l, level l)) (app_logs (snd (sync_step a (Selected []) s))) =
        map (\<lambda>l. (message l, level l)) (app_logs s) @ [(NoDataToSync, ''info'')]) \<and>
   (rows \<noteq> [] \<longrightarrow>
      sync_step a (Selected rows) s = (Marked rows, snd (markSynced (map row_id rows) s))) \<and>
   sync_step a (Marked rows) s =
     (Dequeued rows, snd (delete_sync_queue ''locations'' (join (map row_id rows)) s)) \<and>
   (passes_guard a \<longrightarrow>
      fst (sync_step a (Dequeued rows) s) = Finished \<and>
      locations (snd (sync_step a (Dequeued rows) s)) = locations s \<and>
      sync_queue (snd (sync_step a (Dequeued rows) s)) = sync_queue s \<and>
      map (\<lambda>l. (message l, level l)) (app_logs (snd (sync_step a (Dequeued rows) s))) =
        map (\<lambda>l. (message l, level l)) (app_logs s) @ [(Synced (length rows), ''info'')]) \<and>
   (i < length ts \<longrightarrow>
      sched_step i (ts, s) =
        (ts[i := (fst (ts ! i), fst (sync_step (fst (ts ! i)) (snd (ts ! i)) s))],
         snd (sync_step (fst (ts ! i)) (snd (ts ! i)) s))) \<and>
   (\<exists>new. app_logs (snd (run_schedule sched (map (\<lambda>a. (a, Triggered)) apps, s))) =
            app_logs s @ new \<and>
          list_all sync_entry new \<and>
          length new =
            episodes_finished (fst (run_schedule sched (map (\<lambda>a. (a, Triggered)) apps, s)))) \<and>
   list_all (task_ok (snd (run_schedule sched (map (\<lambda>a. (a, Triggered)) apps, s))))
     (fst (run_schedule sched (map (\<lambda>a. (a, Triggered)) apps, s))) \<and>
   background_sync_task isConnected s = (Inr (if isConnected then NewData else NoData), s)"
proof (intro conjI impI)
  show "sync_step a Triggered s =
     (if passes_guard a then (Selected (listPending s), s) else (Finished, s))"
    by (rule sync_step_Triggered)
  show "sync_step a (Marked rows) s =
     (Dequeued rows, snd (delete_sync_queue ''locations'' (join (map row_id rows)) s))"
    by (rule sync_step_Marked)
  show "background_sync_task isConnected s = (Inr (if isConnected then NewData else NoData), s)"
    by (simp add: background_sync_task_def resolve_def)
next
  assume "rows \<noteq> []"
  then show "sync_step a (Selected rows) s =
      (Marked rows, snd (markSynced (map row_id rows) s))"
    by (rule sync_step_Selected)
next
  assume "i < length ts"
  then show "sched_step i (ts, s) =
        (ts[i := (fst (ts ! i), fst (sync_step (fst (ts ! i)) (snd (ts ! i)) s))],
         snd (sync_step (fst (ts ! i)) (snd (ts ! i)) s))"
    by (simp add: sched_step_def split_beta)
next
  assume g: "passes_guard a"
  then have d: "database a \<noteq> None"
    by (simp add: passes_guard_def)
  let ?s' = "snd (logToDatabase a NoDataToSync ''info'' s)"
  have e: "sync_step a (Selected []) s = (Finished, ?s')"
    by (rule sync_step_empty)
  from logToDatabase_set [OF d, of NoDataToSync "''info''" s] obtain l where
    l: "message l = NoDataToSync" "level l = ''info''" "app_logs ?s' = app_logs s @ [l]"
    by blast
  show "fst (sync_step a (Selected []) s) = Finished"
    unfolding e by simp
  show "locations (snd (sync_step a (Selected []) s)) = locations s"
    unfolding e by (simp add: logToDatabase_tables)
  show "sync_queue (snd (sync_step a (Selected []) s)) = sync_queue s"
    unfolding e by (simp add: logToDatabase_tables)
  show "map (\<lambda>l. (message l, level l)) (app_logs (snd (sync_step a (Selected []) s))) =
        map (\<lambda>l. (message l, level l)) (app_logs s) @ [(NoDataToSync, ''info'')]"
    unfolding e using l by simp
next
  assume g: "passes_guard a"
  then have d: "database a \<noteq> None"
    by (simp add: passes_guard_def)
  let ?s' = "snd (logToDatabase a (Synced (length rows)) ''info'' s)"
  have e: "sync_step a (Dequeued rows) s = (Finished, ?s')"
    by (rule sync_step_Dequeued)
  from logToDatabase_set [OF d, of "Synced (length rows)" "''info''" s] obtain l where
    l: "message l = Synced (length rows)" "level l = ''info''" "app_logs ?s' = app_logs s @ [l]"
    by blast
  show "fst (sync_step a (Dequeued rows) s) = Finished"
    unfolding e by simp
  show "locations (snd (sync_step a (Dequeued rows) s)) = locations s"
    unfolding e by (simp add: logToDatabase_tables)
  show "sync_queue (snd (sync_step a (Dequeued rows) s)) = sync_queue s"
    unfolding e by (simp add: logToDatabase_tables)
  show "map (\<lambda>l. (message l, level l)) (app_logs (snd (sync_step a (Dequeued rows) s))) =
        map (\<lambda>l. (message l, level l)) (app_logs s) @ [(Synced (length rows), ''info'')]"
    unfolding e using l by simp
next
  let ?ts = "map (\<lambda>a. (a, Triggered)) apps"
  have ok: "\<forall>x \<in> set ?ts. task_ok s x"
    by (auto simp: task_ok_def)
  have l: "app_logs s = app_logs s @ []" "list_all sync_entry []"
    "length ([] :: app_logs_row list) = episodes_finished ?ts"
    by (simp_all add: episodes_finished_def)
  from run_schedule_inv [OF ok l, of sched] show
    "\<exists>new. app_logs (snd (run_schedule sched (?ts, s))) = app_logs s @ new \<and>
          list_all sync_entry new \<and>
          length new = episodes_finished (fst (run_schedule sched (?ts, s)))"
    by blast
  from run_schedule_inv [OF ok l, of sched] show
    "list_all (task_ok (snd (run_schedule sched (?ts, s)))) (fst (run_schedule sched (?ts, s)))"
    by (simp add: list_all_iff)
qed

theorem every_trigger_runs_witness:
  "passes_guard ready \<and>
   sync_step ready Triggered one_sample = (Selected (listPending one_sample), one_sample) \<and>
   map (\<lambda>r. (row_id r, synced r)) (listPending one_sample) = [(1, 0)] \<and>
   sync_step ready (Selected (listPending one_sample)) one_sample =
     (Marked (listPending one_sample), snd (markSynced [1] one_sample)) \<and>
   map (\<lambda>l. (message l, level l))
     (app_logs (snd (sync_step ready (Dequeued (listPending one_sample)) one_sample))) =
     [(LocationSaved (Num 28.1) (Num 77.2), ''info''), (Synced 1, ''info'')] \<and>
   map snd (fst (sched_step 1 ([(ready, Triggered), (ready, Triggered)], one_sample))) =
     [Triggered, Selected (listPending one_sample)] \<and>
   episodes_finished (fst (run_schedule [0, 1, 0, 1, 0, 1, 0, 1]
      (map (\<lambda>a. (a, Triggered)) [ready, ready], one_sample))) = 2 \<and>
   length (app_logs (snd (run_schedule [0, 1, 0, 1, 0, 1, 0, 1]
      (map (\<lambda>a. (a, Triggered)) [ready, ready], one_sample)))) =
     length (app_logs one_sample) + 2"
proof -
  have g: "passes_guard ready"
    by (simp add: passes_guard_def ready_def)
  have p: "map (\<lambda>r. (row_id r, synced r)) (listPending one_sample) = [(1, 0)]"
    by code_simp
  then have ne: "listPending one_sample \<noteq> []" and ids: "map row_id (listPending one_sample) = [1]"
    by auto
  have lg: "map (\<lambda>l. (message l, level l)) (app_logs one_sample) =
      [(LocationSaved (Num 28.1) (Num 77.2), ''info'')]"
    by code_simp
  have e: "episodes_finished (fst (run_schedule [0, 1, 0, 1, 0, 1, 0, 1]
      (map (\<lambda>a. (a, Triggered)) [ready, ready], one_sample))) = 2"
    by code_simp
  have i: "1 < length [(ready, Triggered), (ready, Triggered)]"
    by simp
  note th = every_trigger_runs
    [of ready one_sample "listPending one_sample" 1 "[(ready, Triggered), (ready, Triggered)]"
      "[0, 1, 0, 1, 0, 1, 0, 1]" "[ready, ready]"]
  from th have "sync_step ready Triggered one_sample =
      (if passes_guard ready then (Selected (listPending one_sample), one_sample)
       else (Finished, one_sample))"
    by (rule conjunct1)
  then have c1: "sync_step ready Triggered one_sample =
      (Selected (listPending one_sample), one_sample)"
    using g by (simp only: if_True)
  from ne th [THEN conjunct2, THEN conjunct2, THEN conjunct1]
  have "sync_step ready (Selected (listPending one_sample)) one_sample =
      (Marked (listPending one_sample),
       snd (markSynced (map row_id (listPending one_sample)) one_sample))"
    by (rule rev_mp)
  then have c2: "sync_step ready (Selected (listPending one_sample)) one_sample =
      (Marked (listPending one_sample), snd (markSynced [1] one_sample))"
    by (simp only: ids)
  from g th [THEN conjunct2, THEN conjunct2, THEN conjunct2, THEN conjunct2, THEN conjunct1]
  have "fst (sync_step ready (Dequeued (listPending one_sample)) one_sample) = Finished \<and>
      locations (snd (sync_step ready (Dequeued (listPending one_sample)) one_sample)) =
        locations one_sample \<and>
      sync_queue (snd (sync_step ready (Dequeued (listPending one_sample)) one_sample)) =
        sync_queue one_sample \<and>
      map (\<lambda>l. (message l, level l))
       (app_logs (snd (sync_step ready (Dequeued (listPending one_sample)) one_sample))) =
      map (\<lambda>l. (message l, level l)) (app_logs one_sample) @
       [(Synced (length (listPending one_sample)), ''info'')]"
    by (rule rev_mp)
  then have "map (\<lambda>l. (message l, level l))
       (app_logs (snd (sync_step ready (Dequeued (listPending one_sample)) one_sample))) =
      map (\<lambda>l. (message l, level l)) (app_logs one_sample) @
       [(Synced (length (listPending one_sample)), ''info'')]"
    by (elim conjE)
  moreover have "length (listPending one_sample) = 1"
  proof -
    have "length (map row_id (listPending one_sample)) = length [1::nat]"
      by (simp only: ids)
    then show ?thesis by simp
  qed
  ultimately have c3: "map (\<lambda>l. (message l, level l))
       (app_logs (snd (sync_step ready (Dequeued (listPending one_sample)) one_sample))) =
     [(LocationSaved (Num 28.1) (Num 77.2), ''info''), (Synced 1, ''info'')]"
    by (simp only: lg append.simps)
  from i have "sched_step 1 ([(ready, Triggered), (ready, Triggered)], one_sample) =
      ([(ready, Triggered), (ready, Triggered)]
         [1 := (fst ([(ready, Triggered), (ready, Triggered)] ! 1),
                fst (sync_step (fst ([(ready, Triggered), (ready, Triggered)] ! 1))
                       (snd ([(ready, Triggered), (ready, Triggered)] ! 1)) one_sample))],
       snd (sync_step (fst ([(ready, Triggered), (ready, Triggered)] ! 1))
              (snd ([(ready, Triggered), (ready, Triggered)] ! 1)) one_sample))"
    using th [THEN conjunct2, THEN conjunct2, THEN conjunct2, THEN conjunct2, THEN conjunct2,
      THEN conjunct1]
    by (rule rev_mp)
  then have c4: "map snd (fst (sched_step 1
        ([(ready, Triggered), (ready, Triggered)], one_sample))) =
     [Triggered, Selected (listPending one_sample)]"
    by (simp add: ready_def select_unsynced_def)
  from th [THEN conjunct2, THEN conjunct2, THEN conjunct2, THEN conjunct2, THEN conjunct2,
      THEN conjunct2, THEN conjunct1]
  obtain new where
    "app_logs (snd (run_schedule [0, 1, 0, 1, 0, 1, 0, 1]
        (map (\<lambda>a. (a, Triggered)) [ready, ready], one_sample))) = app_logs one_sample @ new"
    "length new = episodes_finished (fst (run_schedule [0, 1, 0, 1, 0, 1, 0, 1]
        (map (\<lambda>a. (a, Triggered)) [ready, ready], one_sample)))"
    by (elim exE conjE)
  then have c5: "length (app_logs (snd (run_schedule [0, 1, 0, 1, 0, 1, 0, 1]
      (map (\<lambda>a. (a, Triggered)) [ready, ready], one_sample)))) =
     length (app_logs one_sample) + 2"
    using e by simp
  from g c1 p c2 c3 c4 e c5 show ?thesis
    by (intro conjI)
qed

text \<open>
  C1 as stated fails. Two triggers on a database with one pending sample: after one step
  each, both calls hold the batch, so two episodes are in progress at once; run to the
  end, both have marked the batch and both have logged "Synced 1 locations".
\<close>

theorem two_triggers_counterexample:
  "map snd (fst (run_schedule [0, 1] ([(ready, Triggered), (ready, Triggered)], one_sample)))
     = [Selected (locations one_sample), Selected (locations one_sample)] \<and>
   map snd (fst (run_schedule [0, 1, 0, 1]
       ([(ready, Triggered), (ready, Triggered)], one_sample)))
     = [Marked (locations one_sample), Marked (locations one_sample)] \<and>
   map message (app_logs (snd (run_schedule [0, 1, 0, 1, 0, 1, 0, 1]
       ([(ready, Triggered), (ready, Triggered)], one_sample))))
     = [LocationSaved (Num 28.1) (Num 77.2), Synced 1, Synced 1]"
  by code_simp

section \<open>Pairing of pending samples and queue entries\<close>

lemma pairing_iff:
  "pairing s =
     (\<forall>r \<in> set (locations s). synced r = 0 \<longrightarrow> length (entries_for s (row_id r)) = 1)"
  by (auto simp: pairing_def pending_rows_def list_all_iff)

lemma queue_bounded_iff:
  "queue_bounded s =
     (\<forall>q \<in> set (sync_queue s).
        record_id q \<le> fold max (map row_id (locations s)) (seq_locations s))"
  by (simp add: queue_bounded_def list_all_iff)

lemma frame_same:
  assumes "locations s' = locations s" "sync_queue s' = sync_queue s"
    "seq_locations s' = seq_locations s" "pairing s \<and> queue_bounded s"
  shows "pairing s' \<and> queue_bounded s'"
  using assms by (simp add: pairing_iff queue_bounded_iff entries_for_def)

lemma frame_insert:
  assumes i: "i = autoincrement (seq_locations s) (map row_id (locations s))"
    and r: "row_id r = i"
    and l: "locations s' = locations s @ [r]"
    and q: "sync_queue s' = sync_queue s @ [e]" "table_name e = ''locations''" "record_id e = i"
    and sq: "seq_locations s' = i"
    and inv: "pairing s \<and> queue_bounded s"
  shows "pairing s' \<and> queue_bounded s'"
proof
  let ?b = "fold max (map row_id (locations s)) (seq_locations s)"
  have ib: "i = Suc ?b" using i by (simp add: autoincrement_def)
  have old_q: "\<forall>e' \<in> set (sync_queue s). record_id e' < i"
    using inv ib by (auto simp: queue_bounded_iff less_Suc_eq_le)
  have old_r: "\<forall>r' \<in> set (locations s). row_id r' < i"
    using autoincrement_fresh [of _ "map row_id (locations s)" "seq_locations s"] i by auto
  have no_old: "entries_for s i = []"
    using old_q by (auto simp: entries_for_def filter_empty_conv)
  show "pairing s'"
    unfolding pairing_iff
  proof (intro ballI impI)
    fix r'
    assume m: "r' \<in> set (locations s')" and p: "synced r' = 0"
    show "length (entries_for s' (row_id r')) = 1"
    proof (cases "r' \<in> set (locations s)")
      case True
      then have ne: "row_id r' \<noteq> i" using old_r by auto
      then have "entries_for s' (row_id r') = entries_for s (row_id r')"
        using q by (simp add: entries_for_def)
      then show ?thesis using inv True p by (simp add: pairing_iff)
    next
      case False
      with m l have "r' = r" by simp
      then have "entries_for s' (row_id r') = entries_for s i @ [e]"
        using q r by (simp add: entries_for_def)
      then show ?thesis using no_old by simp
    qed
  qed
  have "i \<le> fold max (map row_id (locations s')) (seq_locations s')"
    using fold_max_ge [of "seq_locations s'" "map row_id (locations s')"] sq by simp
  then show "queue_bounded s'"
    unfolding queue_bounded_iff using old_q q by (auto simp: less_imp_le dest!: bspec)
qed

lemma frame_sync:
  assumes l: "locations s' =
        map (\<lambda>r. if row_id r \<in> set ids then r\<lparr>synced := 1\<rparr> else r) (locations s)"
    and q: "sync_queue s' =
        (case ids of
           [i] \<Rightarrow> filter (\<lambda>e. \<not> (table_name e = ''locations'' \<and> i = record_id e)) (sync_queue s)
         | _ \<Rightarrow> sync_queue s)"
    and sq: "seq_locations s' = seq_locations s"
    and inv: "pairing s \<and> queue_bounded s"
  shows "pairing s' \<and> queue_bounded s'"
proof
  have sub: "set (sync_queue s') \<subseteq> set (sync_queue s)"
    using q by (auto split: list.splits)
  have ids_same: "map row_id (locations s') = map row_id (locations s)"
    unfolding l by (rule mark_keeps_ids)
  show "queue_bounded s'"
    using inv sub unfolding queue_bounded_iff ids_same sq by blast
  show "pairing s'"
    unfolding pairing_iff
  proof (intro ballI impI)
    fix r'
    assume m: "r' \<in> set (locations s')" and p: "synced r' = 0"
    from m l obtain r where r: "r \<in> set (locations s)"
      "r' = (if row_id r \<in> set ids then r\<lparr>synced := 1\<rparr> else r)"
      by auto
    with p have out: "row_id r \<notin> set ids" and same: "r' = r"
      by (auto split: if_splits)
    have "entries_for s' (row_id r) = entries_for s (row_id r)"
    proof (cases ids)
      case Nil
      with q show ?thesis by (simp add: entries_for_def)
    next
      case (Cons i rest)
      show ?thesis
      proof (cases rest)
        case Nil
        with Cons out have "row_id r \<noteq> i" by simp
        moreover from Nil Cons q have "sync_queue s' =
          filter (\<lambda>e. \<not> (table_name e = ''locations'' \<and> i = record_id e)) (sync_queue s)"
          by simp
        ultimately show ?thesis
          by (auto simp: entries_for_def intro: filter_cong)
      next
        case (Cons j rest')
        with \<open>ids = i # rest\<close> q show ?thesis by (simp add: entries_for_def)
      qed
    qed
    then show "length (entries_for s' (row_id r')) = 1"
      using inv r(1) p same by (simp add: pairing_iff)
  qed
qed

lemma saveLocation_frame:
  "(locations (snd (saveLocation a loc s)) = locations s \<and>
    sync_queue (snd (saveLocation a loc s)) = sync_queue s \<and>
    seq_locations (snd (saveLocation a loc s)) = seq_locations s) \<or>
   (\<exists>r e. row_id r = autoincrement (seq_locations s) (map row_id (locations s)) \<and>
      locations (snd (saveLocation a loc s)) = locations s @ [r] \<and>
      sync_queue (snd (saveLocation a loc s)) = sync_queue s @ [e] \<and>
      table_name e = ''locations'' \<and>
      record_id e = autoincrement (seq_locations s) (map row_id (locations s)) \<and>
      seq_locations (snd (saveLocation a loc s)) =
        autoincrement (seq_locations s) (map row_id (locations s)))"
  by (auto simp: engine_defs Let_def split: option.splits)

lemma syncData_frame:
  "(locations (snd (syncData a s)) = locations s \<and>
    sync_queue (snd (syncData a s)) = sync_queue s \<and>
    seq_locations (snd (syncData a s)) = seq_locations s) \<or>
   (locations (snd (syncData a s)) =
      map (\<lambda>r. if row_id r \<in> set (map row_id (listPending s)) then r\<lparr>synced := 1\<rparr> else r)
        (locations s) \<and>
    sync_queue (snd (syncData a s)) =
      (case map row_id (listPending s) of
         [i] \<Rightarrow> filter (\<lambda>e. \<not> (table_name e = ''locations'' \<and> i = record_id e)) (sync_queue s)
       | _ \<Rightarrow> sync_queue s) \<and>
    seq_locations (snd (syncData a s)) = seq_locations s)"
proof (cases "database a = None \<or> \<not> isOnline a \<or> listPending s = []")
  case True
  then show ?thesis
    by (auto simp: syncData_def async_defs logToDatabase_case logToDatabase_tables
          select_unsynced_def)
next
  case False
  let ?ids = "map row_id (listPending s)"
  let ?s1 = "snd (markSynced ?ids s)"
  let ?s2 = "snd (delete_sync_queue ''locations'' (join ?ids) ?s1)"
  from False have e: "snd (syncData a s) =
      snd (logToDatabase a (Synced (length (listPending s))) ''info'' ?s2)"
    by (auto simp: syncData_def async_defs logToDatabase_case select_unsynced_def
          markSynced_def delete_sync_queue_def Let_def)
  have "sync_queue ?s2 =
      (case ?ids of
         [i] \<Rightarrow> filter (\<lambda>e. \<not> (table_name e = ''locations'' \<and> i = record_id e)) (sync_queue ?s1)
       | _ \<Rightarrow> sync_queue ?s1)"
    by (rule delete_sync_queue_join)
  moreover have "sync_queue ?s1 = sync_queue s" "seq_locations ?s2 = seq_locations s"
    "locations ?s2 = map (\<lambda>r. if row_id r \<in> set ?ids then r\<lparr>synced := 1\<rparr> else r) (locations s)"
    by (simp_all add: markSynced_def delete_sync_queue_def)
  ultimately show ?thesis
    unfolding e by (simp only: logToDatabase_tables) simp
qed

lemma clearDatabase_frame:
  "(locations (snd (clearDatabase a b s)) = locations s \<and>
    sync_queue (snd (clearDatabase a b s)) = sync_queue s \<and>
    seq_locations (snd (clearDatabase a b s)) = seq_locations s) \<or>
   (locations (snd (clearDatabase a b s)) = [] \<and> sync_queue (snd (clearDatabase a b s)) = [])"
  by (cases b)
    (auto simp: clearDatabase_def async_defs delete_all_def logToDatabase_case
       logToDatabase_tables)

lemma apply_op_pairing:
  assumes "\<not> is_location_task op" and inv: "pairing s \<and> queue_bounded s"
  shows "pairing (apply_op op s) \<and> queue_bounded (apply_op op s)"
proof (cases op)
  case (SaveLocation a loc)
  let ?s' = "snd (saveLocation a loc s)"
  from saveLocation_frame [of a loc s] have "pairing ?s' \<and> queue_bounded ?s'"
  proof (elim disjE exE conjE)
    assume l: "locations ?s' = locations s" and q: "sync_queue ?s' = sync_queue s"
      and sq: "seq_locations ?s' = seq_locations s"
    show ?thesis by (rule frame_same [OF l q sq inv])
  next
    fix r e
    assume r: "row_id r = autoincrement (seq_locations s) (map row_id (locations s))"
      and l: "locations ?s' = locations s @ [r]"
      and q: "sync_queue ?s' = sync_queue s @ [e]"
      and tn: "table_name e = ''locations''"
      and ri: "record_id e = autoincrement (seq_locations s) (map row_id (locations s))"
      and sq: "seq_locations ?s' = autoincrement (seq_locations s) (map row_id (locations s))"
    show ?thesis by (rule frame_insert [OF refl r l q tn ri sq inv])
  qed
  then show ?thesis by (simp only: SaveLocation apply_op.simps)
next
  case (LocationTask err locs)
  with assms(1) show ?thesis by simp
next
  case (SyncData a)
  let ?s' = "snd (syncData a s)"
  from syncData_frame [of a s] have "pairing ?s' \<and> queue_bounded ?s'"
  proof (elim disjE conjE)
    assume l: "locations ?s' = locations s" and q: "sync_queue ?s' = sync_queue s"
      and sq: "seq_locations ?s' = seq_locations s"
    show ?thesis by (rule frame_same [OF l q sq inv])
  next
    assume l: "locations ?s' =
      map (\<lambda>r. if row_id r \<in> set (map row_id (listPending s)) then r\<lparr>synced := 1\<rparr> else r)
        (locations s)"
      and q: "sync_queue ?s' =
      (case map row_id (listPending s) of
         [i] \<Rightarrow> filter (\<lambda>e. \<not> (table_name e = ''locations'' \<and> i = record_id e)) (sync_queue s)
       | _ \<Rightarrow> sync_queue s)"
      and sq: "seq_locations ?s' = seq_locations s"
    show ?thesis by (rule frame_sync [OF l q sq inv])
  qed
  then show ?thesis by (simp only: SyncData apply_op.simps)
next
  case (LogToDatabase a msg lvl)
  let ?s' = "snd (logToDatabase a msg lvl s)"
  have "pairing ?s' \<and> queue_bounded ?s'"
    by (rule frame_same [OF _ _ _ inv]) (simp_all only: logToDatabase_tables)
  then show ?thesis by (simp only: LogToDatabase apply_op.simps)
next
  case (InitDatabase a)
  let ?s' = "snd (initDatabase a s)"
  have e: "?s' = snd (logToDatabase a DatabaseInitialized ''info'' s)"
    by (simp add: initDatabase_def create_tables_def async_defs logToDatabase_case)
  have "pairing ?s' \<and> queue_bounded ?s'"
    unfolding e by (rule frame_same [OF _ _ _ inv]) (simp_all only: logToDatabase_tables)
  then show ?thesis by (simp only: InitDatabase apply_op.simps)
next
  case (ClearDatabase a b)
  let ?s' = "snd (clearDatabase a b s)"
  from clearDatabase_frame [of a b s] have "pairing ?s' \<and> queue_bounded ?s'"
  proof (elim disjE conjE)
    assume l: "locations ?s' = locations s" and q: "sync_queue ?s' = sync_queue s"
      and sq: "seq_locations ?s' = seq_locations s"
    show ?thesis by (rule frame_same [OF l q sq inv])
  next
    assume "locations ?s' = []" "sync_queue ?s' = []"
    then show ?thesis by (simp add: pairing_iff queue_bounded_iff)
  qed
  then show ?thesis by (simp only: ClearDatabase apply_op.simps)
qed

lemma run_pairing:
  "\<forall>op \<in> set ops. \<not> is_location_task op \<Longrightarrow> pairing s \<and> queue_bounded s \<Longrightarrow>
     pairing (run ops s) \<and> queue_bounded (run ops s)"
  unfolding run_def
proof (induction ops arbitrary: s)
  case Nil
  then show ?case by simp
next
  case (Cons op ops)
  from Cons.prems have "pairing (apply_op op s) \<and> queue_bounded (apply_op op s)"
    by (intro apply_op_pairing) simp_all
  with Cons.IH [of "apply_op op s"] Cons.prems(1) show ?case by simp
qed

lemma pairing_without_location_task:
  "\<forall>op \<in> set ops. \<not> is_location_task op \<Longrightarrow> pairing (run ops empty_db)"
proof -
  assume a: "\<forall>op \<in> set ops. \<not> is_location_task op"
  have "pairing empty_db \<and> queue_bounded empty_db"
    by (simp add: pairing_iff queue_bounded_iff empty_db_def)
  with a have "pairing (run ops empty_db) \<and> queue_bounded (run ops empty_db)"
    by (rule run_pairing)
  then show ?thesis by simp
qed

lemma filter_disj_count:
  "\<forall>q \<in> set qs. \<not> (A q \<and> B q) \<Longrightarrow>
     length (filter (\<lambda>q. A q \<or> B q) qs) = length (filter A qs) + length (filter B qs)"
  by (induction qs) auto

lemma count_by_ids:
  "distinct ids \<Longrightarrow>
     length (filter (\<lambda>q. P q \<and> record_id q \<in> set ids) qs) =
     sum_list (map (\<lambda>i. length (filter (\<lambda>q. P q \<and> record_id q = i) qs)) ids)"
proof (induction ids)
  case Nil
  then show ?case by simp
next
  case (Cons i ids)
  have "filter (\<lambda>q. P q \<and> record_id q \<in> set (i # ids)) qs =
        filter (\<lambda>q. (P q \<and> record_id q = i) \<or> (P q \<and> record_id q \<in> set ids)) qs"
    by (rule filter_cong) auto
  moreover have "\<forall>q \<in> set qs. \<not> ((P q \<and> record_id q = i) \<and> (P q \<and> record_id q \<in> set ids))"
    using Cons.prems by auto
  ultimately have "length (filter (\<lambda>q. P q \<and> record_id q \<in> set (i # ids)) qs) =
      length (filter (\<lambda>q. P q \<and> record_id q = i) qs) +
      length (filter (\<lambda>q. P q \<and> record_id q \<in> set ids) qs)"
    by (simp only: filter_disj_count)
  with Cons show ?case by simp
qed

lemma pairing_count:
  assumes d: "distinct (map row_id (locations s))" and p: "pairing s"
  shows "length (live_entries s) = length (pending_rows s)"
proof -
  let ?ids = "map row_id (pending_rows s)"
  have dp: "distinct ?ids"
    using d unfolding pending_rows_def by (rule distinct_map_filter)
  have "live_entries s =
      filter (\<lambda>q. table_name q = ''locations'' \<and> record_id q \<in> set ?ids) (sync_queue s)"
    by (simp add: live_entries_def)
  then have "length (live_entries s) =
      sum_list (map (\<lambda>i. length (entries_for s i)) ?ids)"
    using count_by_ids [OF dp, of "\<lambda>q. table_name q = ''locations''" "sync_queue s"]
    by (simp add: entries_for_def)
  also have "\<dots> = sum_list (map (\<lambda>r. 1) (pending_rows s))"
  proof -
    have eq: "map (\<lambda>i. length (entries_for s i)) ?ids = map (\<lambda>r. 1) (pending_rows s)"
      using p by (simp add: pairing_def list_all_iff)
    show ?thesis by (simp only: eq)
  qed
  also have "\<dots> = length (pending_rows s)"
    by (simp add: sum_list_triv)
  finally show ?thesis .
qed

lemma pairing_counts_without_location_task:
  assumes "\<forall>op \<in> set ops. \<not> is_location_task op"
  shows "pairing (run ops empty_db) \<and>
     length (live_entries (run ops empty_db)) = length (pending_rows (run ops empty_db))"
proof -
  have p: "pairing (run ops empty_db)"
    using assms by (rule pairing_without_location_task)
  have d: "distinct (map row_id (locations (run ops empty_db)))"
    by (intro run_distinct empty_distinct)
  from p pairing_count [OF d p] show ?thesis by simp
qed

text \<open>
  C3, evaluated. One fix delivered to the background location task on the empty database
  leaves one pending sample and no \<open>sync_queue\<close> entry, so the pairing fails; the same fix
  given to \<open>saveLocation\<close> is paired with one entry.
\<close>

theorem location_task_breaks_pairing:
  "pairing empty_db \<and>
   fst (background_location_task False [fix_at 28.1 77.2 1000] empty_db) = Inr () \<and>
   length (pending_rows (snd (background_location_task False [fix_at 28.1 77.2 1000] empty_db)))
     = 1 \<and>
   sync_queue (snd (background_location_task False [fix_at 28.1 77.2 1000] empty_db)) = [] \<and>
   live_entries (snd (background_location_task False [fix_at 28.1 77.2 1000] empty_db)) = [] \<and>
   \<not> pairing (snd (background_location_task False [fix_at 28.1 77.2 1000] empty_db)) \<and>
   pairing (snd (saveLocation ready (fix_at 28.1 77.2 1000) empty_db)) \<and>
   length (live_entries (snd (saveLocation ready (fix_at 28.1 77.2 1000) empty_db))) = 1"
  by code_simp

theorem location_task_breaks_pairing_witness:
  "length (pending_rows (snd (background_location_task False [fix_at 28.1 77.2 1000] empty_db)))
     \<noteq> length (live_entries
           (snd (background_location_task False [fix_at 28.1 77.2 1000] empty_db)))"
  using location_task_breaks_pairing by simp

end
